theory Spec2Isabelle
  imports
    Complex_Main
    "HOL-Library.AList"
    "HOL-Library.Multiset"
    "HOL-Library.Char_ord"
    "HOL-Library.List_Lexorder"
begin

section \<open>Strings: the parts of Python's \<open>str\<close> that \<open>aggregate_results.py\<close> uses\<close>

text \<open>
  A directory name is a \<^typ>\<open>string\<close>; a \<^typ>\<open>char\<close> stands for a code point below 256.
  \<open>starts_with sep s\<close> is \<open>s.startswith(sep)\<close>, \<open>contains sep s\<close> is \<open>sep in s\<close>, and
  \<open>split_py sep cur s\<close> is \<open>s.split(sep)\<close> for a non-empty separator, scanning from the
  left for non-overlapping occurrences; \<open>cur\<close> is the part read so far.
\<close>

definition starts_with :: "string \<Rightarrow> string \<Rightarrow> bool" where
  "starts_with sep s = (take (length sep) s = sep)"

fun contains :: "string \<Rightarrow> string \<Rightarrow> bool" where
  "contains sep [] = (sep = [])"
| "contains sep (c # cs) = (starts_with sep (c # cs) \<or> contains sep cs)"

fun split_py :: "string \<Rightarrow> string \<Rightarrow> string \<Rightarrow> string list" where
  "split_py sep cur [] = [cur]"
| "split_py sep cur (c # cs) =
     (if sep \<noteq> [] \<and> starts_with sep (c # cs)
      then cur # split_py sep [] (drop (length sep - 1) cs)
      else split_py sep (cur @ [c]) cs)"

text \<open>
  \<open>int(s)\<close> in base ten, as CPython reads a \<open>str\<close>: white space is stripped at both
  ends, one sign may follow, then decimal digits, where single underscores may stand
  between two digits. Anything else raises \<open>ValueError\<close>, which is \<open>None\<close> here.
\<close>

definition py_isspace :: "char \<Rightarrow> bool" where
  "py_isspace c = (of_char c \<in> {9, 10, 11, 12, 13, 32, 133, 160 :: nat})"

definition is_digit :: "char \<Rightarrow> bool" where
  "is_digit c = (48 \<le> (of_char c :: nat) \<and> (of_char c :: nat) \<le> 57)"

definition digit_val :: "char \<Rightarrow> nat" where
  "digit_val c = of_char c - 48"

definition strip :: "string \<Rightarrow> string" where
  "strip s = rev (dropWhile py_isspace (rev (dropWhile py_isspace s)))"

fun digits_ok :: "bool \<Rightarrow> string \<Rightarrow> bool" where
  "digits_ok prev_digit [] = prev_digit"
| "digits_ok prev_digit (c # cs) =
     (if is_digit c then digits_ok True cs
      else if c = CHR ''_'' \<and> prev_digit then digits_ok False cs
      else False)"

definition digits_value :: "string \<Rightarrow> nat" where
  "digits_value s = foldl (\<lambda>a c. 10 * a + digit_val c) 0 (filter is_digit s)"

definition py_digits :: "string \<Rightarrow> nat option" where
  "py_digits s = (if digits_ok False s then Some (digits_value s) else None)"

definition py_int :: "string \<Rightarrow> int option" where
  "py_int s =
     (case strip s of
        [] \<Rightarrow> None
      | c # cs \<Rightarrow>
          if c = CHR ''-'' then map_option (\<lambda>n. - int n) (py_digits cs)
          else if c = CHR ''+'' then map_option int (py_digits cs)
          else map_option int (py_digits (c # cs)))"

section \<open>Result Locator\<close>

text \<open>
  \<open>extract_scene_and_case\<close>: the pair \<open>(None, None)\<close> of the source is \<open>None\<close>, a pair
  \<open>(scene_name, case_id)\<close> is \<open>Some\<close>.
\<close>

definition extract_scene_and_case :: "string \<Rightarrow> (string \<times> int) option" where
  "extract_scene_and_case dirname =
     (case split_py ''_case'' [] dirname of
        [scene_name, suffix] \<Rightarrow>
          (case py_int suffix of
             Some case_id \<Rightarrow> Some (scene_name, case_id)
           | None \<Rightarrow> None)
      | _ \<Rightarrow> None)"

section \<open>Values read from \<open>results.json\<close>, and the file system\<close>

text \<open>
  What \<open>json.load\<close> returns: Python's \<open>None\<close>, \<open>bool\<close>, \<open>int\<close>, \<open>float\<close>, \<open>str\<close>,
  \<open>list\<close> and \<open>dict\<close>. A \<open>dict\<close> is an association list in insertion order; Python keeps
  its keys distinct, which is the predicate \<open>wf_json\<close>. A \<open>float\<close> is idealised as a
  real number: rounding, \<open>NaN\<close> and the infinities are outside this model.
\<close>

datatype json =
    JNull
  | JBool bool
  | JInt int
  | JFloat real
  | JStr string
  | JArr "json list"
  | JObj "(string \<times> json) list"

fun wf_json :: "json \<Rightarrow> bool" where
  "wf_json (JArr xs) = list_all wf_json xs"
| "wf_json (JObj kvs) = (distinct (map fst kvs) \<and> list_all (\<lambda>kv. wf_json (snd kv)) kvs)"
| "wf_json _ = True"

datatype cell = Txt string | Fixed6 real | Num nat

text \<open>
  A file holds either a text that \<open>json.load\<close> parses to a value (\<open>Doc\<close>), or the rows of
  a table written by \<open>csv.writer\<close> (\<open>Csv\<close>, where \<open>Fixed6 x\<close> is the text of
  \<open>f"{x:.6f}"\<close>), or anything else (\<open>Other\<close>); \<open>json.load\<close> raises on the last two.
  A path is the list of its components below a common root, and the file system lists
  every node but the root with its path. The order of the list is the order in which the
  operating system enumerates directory entries.
\<close>

datatype content = Doc json | Csv "cell list list" | Other

datatype node = Dir | File content

type_synonym path = "string list"

type_synonym fs = "(path \<times> node) list"

datatype error =
    AttributeError
  | FileExistsError
  | FileNotFoundError
  | NotADirectoryError
  | IsADirectoryError

definition node_at :: "fs \<Rightarrow> path \<Rightarrow> node option" where
  "node_at fs p = (if p = [] then Some Dir else map_of fs p)"

definition is_dir :: "fs \<Rightarrow> path \<Rightarrow> bool" where
  "is_dir fs p = (node_at fs p = Some Dir)"

definition exists_path :: "fs \<Rightarrow> path \<Rightarrow> bool" where
  "exists_path fs p = (node_at fs p \<noteq> None)"

definition iterdir :: "fs \<Rightarrow> path \<Rightarrow> path list" where
  "iterdir fs d = [p \<leftarrow> map fst fs. p \<noteq> [] \<and> butlast p = d]"

text \<open>
  Every node lies in a directory and is listed once: the file systems the program can
  meet.
\<close>

definition wf_fs :: "fs \<Rightarrow> bool" where
  "wf_fs fs =
     (distinct (map fst fs) \<and> list_all (\<lambda>p. p \<noteq> [] \<and> is_dir fs (butlast p)) (map fst fs))"

subsection \<open>\<open>load_results_json\<close>\<close>

text \<open>
  \<open>open\<close> or \<open>json.load\<close> raising is caught and gives \<open>None\<close>, which is \<open>JNull\<close> here, as
  is the value of the JSON text \<open>null\<close>.
\<close>

definition load_results_json :: "fs \<Rightarrow> path \<Rightarrow> json" where
  "load_results_json fs json_path =
     (case node_at fs json_path of
        Some (File (Doc j)) \<Rightarrow> j
      | _ \<Rightarrow> JNull)"

subsection \<open>\<open>collect_all_results\<close>\<close>

type_synonym all_results = "(string \<times> (int \<times> json) list) list"

text \<open>
  Reading a key of a \<open>defaultdict(dict)\<close> or \<open>defaultdict(list)\<close>: a missing key reads
  as the empty \<open>dict\<close> or \<open>list\<close>, both \<open>[]\<close> here.
\<close>

definition get_default :: "('k \<times> 'a list) list \<Rightarrow> 'k \<Rightarrow> 'a list" where
  "get_default d k = (case map_of d k of None \<Rightarrow> [] | Some x \<Rightarrow> x)"

definition scene_case_dirs :: "fs \<Rightarrow> path \<Rightarrow> path list" where
  "scene_case_dirs fs results_dir =
     sort [d \<leftarrow> iterdir fs results_dir. is_dir fs d \<and> contains ''_case'' (last d)]"

text \<open>One round of the loop over \<open>scene_case_dirs\<close>; the state is
  \<open>(all_results, missing_count)\<close>.\<close>

definition collect_step :: "fs \<Rightarrow> all_results \<times> nat \<Rightarrow> path \<Rightarrow> all_results \<times> nat" where
  "collect_step fs st scene_case_dir =
     (case extract_scene_and_case (last scene_case_dir) of
        None \<Rightarrow> st
      | Some (scene_name, case_id) \<Rightarrow>
          let results_json_path = scene_case_dir @ [''results.json''] in
          if exists_path fs results_json_path then
            (let results = load_results_json fs results_json_path in
             if results \<noteq> JNull
             then (AList.update scene_name
                     (AList.update case_id results (get_default (fst st) scene_name)) (fst st),
                   snd st)
             else st)
          else (fst st, Suc (snd st)))"

definition collect_loop :: "fs \<Rightarrow> path list \<Rightarrow> all_results \<times> nat" where
  "collect_loop fs dirs = foldl (collect_step fs) ([], 0) dirs"

definition collect_all_results :: "fs \<Rightarrow> path \<Rightarrow> all_results" where
  "collect_all_results fs results_dir = fst (collect_loop fs (scene_case_dirs fs results_dir))"

definition missing_count :: "fs \<Rightarrow> path \<Rightarrow> nat" where
  "missing_count fs results_dir = snd (collect_loop fs (scene_case_dirs fs results_dir))"

section \<open>Statistics Aggregator\<close>

subsection \<open>The functions of \<open>numpy\<close> that the aggregator calls\<close>

text \<open>
  \<open>np.mean\<close>, \<open>np.std\<close> with its parameter \<open>ddof\<close> (the source passes none, so it is
  \<open>0\<close>), \<open>np.min\<close> and \<open>np.max\<close> on a one-dimensional array, over the reals. The source
  calls them on a non-empty array only (\<open>len(values) > 0\<close>), and \<open>np_min\<close> and \<open>np_max\<close>
  are defined there only.
\<close>

definition np_mean :: "real list \<Rightarrow> real" where
  "np_mean xs = sum_list xs / real (length xs)"

definition np_std :: "nat \<Rightarrow> real list \<Rightarrow> real" where
  "np_std ddof xs =
     sqrt (sum_list (map (\<lambda>x. \<bar>x - np_mean xs\<bar>\<^sup>2) xs) / (real (length xs) - real ddof))"

fun np_min :: "real list \<Rightarrow> real" where
  "np_min (x # xs) = foldl min x xs"

fun np_max :: "real list \<Rightarrow> real" where
  "np_max (x # xs) = foldl max x xs"

text \<open>
  \<open>isinstance(value, (int, float))\<close>: in Python \<open>bool\<close> is a subclass of \<open>int\<close>, so
  \<open>True\<close> and \<open>False\<close> pass the test.
\<close>

fun is_int_or_float :: "json \<Rightarrow> bool" where
  "is_int_or_float (JBool b) = True"
| "is_int_or_float (JInt i) = True"
| "is_int_or_float (JFloat x) = True"
| "is_int_or_float _ = False"

text \<open>
  \<open>np.array(values)\<close> of values that passed the test: the array is of floats when one value
  is a float, else of integers when one is an \<open>int\<close>, else of booleans. \<open>to_real\<close> is the
  number the statistics see, \<open>tolist\<close> is \<open>values.tolist()\<close>.
\<close>

fun to_real :: "json \<Rightarrow> real" where
  "to_real (JBool b) = (if b then 1 else 0)"
| "to_real (JInt i) = real_of_int i"
| "to_real (JFloat x) = x"
| "to_real _ = 0"

fun to_int :: "json \<Rightarrow> int" where
  "to_int (JBool b) = (if b then 1 else 0)"
| "to_int (JInt i) = i"
| "to_int _ = 0"

fun is_float :: "json \<Rightarrow> bool" where
  "is_float (JFloat x) = True"
| "is_float _ = False"

fun is_int :: "json \<Rightarrow> bool" where
  "is_int (JInt i) = True"
| "is_int _ = False"

definition tolist :: "json list \<Rightarrow> json list" where
  "tolist vs =
     (if list_ex is_float vs then map (\<lambda>v. JFloat (to_real v)) vs
      else if list_ex is_int vs then map (\<lambda>v. JInt (to_int v)) vs
      else vs)"

subsection \<open>StatBlock\<close>

text \<open>
  The dict with the keys \<open>mean\<close>, \<open>std\<close>, \<open>min\<close>, \<open>max\<close>, \<open>count\<close> and, per scene only,
  \<open>values\<close>: \<open>values_stat\<close> is \<open>None\<close> where the source builds the dict without that key.
\<close>

record stat_block =
  mean :: real
  std :: real
  min_stat :: real
  max_stat :: real
  count_stat :: nat
  values_stat :: "json list option"

type_synonym 'a metric_lists = "(string \<times> (string \<times> 'a list) list) list"

type_synonym stats = "(string \<times> (string \<times> stat_block) list) list"

text \<open>\<open>d[iteration_name][metric_name].append(v)\<close> on a
  \<open>defaultdict(lambda: defaultdict(list))\<close>.\<close>

definition append_value :: "'a metric_lists \<Rightarrow> string \<Rightarrow> string \<Rightarrow> 'a \<Rightarrow> 'a metric_lists" where
  "append_value d iteration_name metric_name v =
     (let metrics = get_default d iteration_name
      in AList.update iteration_name
           (AList.update metric_name (get_default metrics metric_name @ [v]) metrics) d)"

text \<open>
  The second loop of both functions: \<open>stats[iteration_name] = {}\<close>, then one entry for
  each metric whose list is not empty; \<open>mk\<close> builds the entry.
\<close>

definition fill_metrics ::
  "('a list \<Rightarrow> stat_block) \<Rightarrow> (string \<times> 'a list) list \<Rightarrow> (string \<times> stat_block) list" where
  "fill_metrics mk metrics =
     foldl (\<lambda>d (metric_name, values).
              if length values > 0 then AList.update metric_name (mk values) d else d)
       [] metrics"

definition build_stats :: "('a list \<Rightarrow> stat_block) \<Rightarrow> 'a metric_lists \<Rightarrow> stats" where
  "build_stats mk collected =
     foldl (\<lambda>stats (iteration_name, metrics).
              AList.update iteration_name (fill_metrics mk metrics) stats)
       [] collected"

subsection \<open>\<open>compute_scene_statistics\<close>\<close>

text \<open>\<open>x.items()\<close>: only a \<open>dict\<close> has the method, any other value raises
  \<open>AttributeError\<close>.\<close>

fun items :: "json \<Rightarrow> error + (string \<times> json) list" where
  "items (JObj kvs) = Inr kvs"
| "items _ = Inl AttributeError"

definition add_metric :: "string \<Rightarrow> json metric_lists \<Rightarrow> string \<times> json \<Rightarrow> json metric_lists" where
  "add_metric iteration_name d kv =
     (if is_int_or_float (snd kv) then append_value d iteration_name (fst kv) (snd kv) else d)"

fun scan_case_data :: "json metric_lists \<Rightarrow> (string \<times> json) list \<Rightarrow> error + json metric_lists" where
  "scan_case_data d [] = Inr d"
| "scan_case_data d ((iteration_name, metrics) # rest) =
     (case items metrics of
        Inl e \<Rightarrow> Inl e
      | Inr kvs \<Rightarrow> scan_case_data (foldl (add_metric iteration_name) d kvs) rest)"

fun scan_cases :: "json metric_lists \<Rightarrow> (int \<times> json) list \<Rightarrow> error + json metric_lists" where
  "scan_cases d [] = Inr d"
| "scan_cases d ((case_id, case_data) # rest) =
     (case items case_data of
        Inl e \<Rightarrow> Inl e
      | Inr its \<Rightarrow>
          (case scan_case_data d its of
             Inl e \<Rightarrow> Inl e
           | Inr d' \<Rightarrow> scan_cases d' rest))"

definition scene_block :: "json list \<Rightarrow> stat_block" where
  "scene_block values =
     (let xs = map to_real values in
      \<lparr>mean = np_mean xs, std = np_std 0 xs, min_stat = np_min xs, max_stat = np_max xs,
       count_stat = length values, values_stat = Some (tolist values)\<rparr>)"

definition compute_scene_statistics :: "(int \<times> json) list \<Rightarrow> error + stats" where
  "compute_scene_statistics scene_results =
     (case scan_cases [] scene_results of
        Inl e \<Rightarrow> Inl e
      | Inr iteration_metrics \<Rightarrow> Inr (build_stats scene_block iteration_metrics))"

subsection \<open>\<open>compute_overall_statistics\<close>\<close>

definition overall_lists :: "(string \<times> stats) list \<Rightarrow> real metric_lists" where
  "overall_lists all_scene_stats =
     foldl (\<lambda>d (scene_name, scene_stats).
        foldl (\<lambda>d (iteration_name, metrics).
          foldl (\<lambda>d (metric_name, st). append_value d iteration_name metric_name (mean st))
            d metrics)
          d scene_stats)
       [] all_scene_stats"

definition overall_block :: "real list \<Rightarrow> stat_block" where
  "overall_block values =
     \<lparr>mean = np_mean values, std = np_std 0 values, min_stat = np_min values,
      max_stat = np_max values, count_stat = length values, values_stat = None\<rparr>"

definition compute_overall_statistics :: "(string \<times> stats) list \<Rightarrow> stats" where
  "compute_overall_statistics all_scene_stats =
     build_stats overall_block (overall_lists all_scene_stats)"

section \<open>Report Renderer\<close>

text \<open>
  The summary as \<open>json.dump\<close> receives it: nested dicts in insertion order, written as a
  \<^typ>\<open>json\<close> value. The console table is not modelled; it writes no file and cannot
  fail on these values.
\<close>

definition stat_json :: "stat_block \<Rightarrow> json" where
  "stat_json b =
     JObj ([(''mean'', JFloat (mean b)), (''std'', JFloat (std b)),
            (''min'', JFloat (min_stat b)), (''max'', JFloat (max_stat b)),
            (''count'', JInt (int (count_stat b)))]
           @ (case values_stat b of None \<Rightarrow> [] | Some vs \<Rightarrow> [(''values'', JArr vs)]))"

definition stats_json :: "stats \<Rightarrow> json" where
  "stats_json st =
     JObj (map (\<lambda>(iteration_name, metrics).
                  (iteration_name, JObj (map (\<lambda>(metric_name, b). (metric_name, stat_json b)) metrics)))
             st)"

definition path_str :: "path \<Rightarrow> string" where
  "path_str p = foldr (\<lambda>c s. CHR ''/'' # c @ s) p []"

definition metadata :: "path \<Rightarrow> all_results \<Rightarrow> json" where
  "metadata results_dir all_results =
     JObj [(''results_directory'', JStr (path_str results_dir)),
           (''num_scenes'', JInt (int (length all_results))),
           (''num_cases'', JInt (int (sum_list (map (\<lambda>(scene_name, cases). length cases) all_results)))),
           (''scene_list'', JArr (map JStr (sort (map fst all_results)))),
           (''note'', JStr ''Vanilla Gaussian Splatting - RGB metrics only (PSNR, SSIM, LPIPS)'')]"

definition summary :: "(string \<times> stats) list \<Rightarrow> stats \<Rightarrow> json \<Rightarrow> json" where
  "summary scene_stats overall_stats md =
     JObj [(''metadata'', md),
           (''overall_statistics'', stats_json overall_stats),
           (''per_scene_statistics'',
              JObj (map (\<lambda>(scene_name, st). (scene_name, stats_json st)) scene_stats))]"

definition csv_rows :: "stats \<Rightarrow> cell list list" where
  "csv_rows overall_stats =
     [Txt ''Iteration'', Txt ''Metric'', Txt ''Mean'', Txt ''Std'', Txt ''Min'', Txt ''Max'',
      Txt ''Count'']
     # concat (map (\<lambda>(iteration_name, metrics).
          map (\<lambda>(metric_name, b).
                 [Txt iteration_name, Txt metric_name, Fixed6 (mean b), Fixed6 (std b),
                  Fixed6 (min_stat b), Fixed6 (max_stat b), Num (count_stat b)])
            (sort_key fst metrics))
        (sort_key fst overall_stats))"

subsection \<open>Writing to the file system\<close>

text \<open>
  \<open>os.mkdir\<close>, then \<open>Path.mkdir(parents=True, exist_ok=True)\<close> as \<open>pathlib\<close> defines it on
  top: a missing parent is created first, and an existing directory is accepted.
  \<open>open(path, 'w')\<close> followed by the write is \<open>write_file\<close>.
\<close>

definition os_mkdir :: "fs \<Rightarrow> path \<Rightarrow> error + fs" where
  "os_mkdir fs p =
     (case node_at fs p of
        Some n \<Rightarrow> Inl FileExistsError
      | None \<Rightarrow>
          (case node_at fs (butlast p) of
             None \<Rightarrow> Inl FileNotFoundError
           | Some (File c) \<Rightarrow> Inl NotADirectoryError
           | Some Dir \<Rightarrow> Inr (fs @ [(p, Dir)])))"

function mkdir_parents :: "fs \<Rightarrow> path \<Rightarrow> error + fs" where
  "mkdir_parents fs p =
     (case os_mkdir fs p of
        Inr fs' \<Rightarrow> Inr fs'
      | Inl e \<Rightarrow>
          if e = FileNotFoundError then
            (if p = [] then Inl e
             else (case mkdir_parents fs (butlast p) of
                     Inl e' \<Rightarrow> Inl e'
                   | Inr fs' \<Rightarrow>
                       (case os_mkdir fs' p of
                          Inr fs'' \<Rightarrow> Inr fs''
                        | Inl e' \<Rightarrow> if is_dir fs' p then Inr fs' else Inl e')))
          else if is_dir fs p then Inr fs
          else Inl e)"
  by pat_completeness auto
termination
  by (relation "measure (\<lambda>(fs, p). length p)") auto

declare mkdir_parents.simps [simp del]

definition write_file :: "fs \<Rightarrow> path \<Rightarrow> content \<Rightarrow> error + fs" where
  "write_file fs p c =
     (case node_at fs p of
        Some Dir \<Rightarrow> Inl IsADirectoryError
      | _ \<Rightarrow>
          (case node_at fs (butlast p) of
             None \<Rightarrow> Inl FileNotFoundError
           | Some (File c') \<Rightarrow> Inl NotADirectoryError
           | Some Dir \<Rightarrow> Inr (AList.update p (File c) fs)))"

section \<open>\<open>main\<close>\<close>

text \<open>
  The namespace that \<open>parser.parse_args()\<close> returns for an accepted command line:
  \<open>output_dir\<close> is \<open>None\<close> when \<open>--output_dir\<close> is omitted or empty, the two cases in
  which \<open>args.output_dir\<close> is false. Once \<open>parse_args\<close> has returned, a run ends in one of
  four ways: at the end of \<open>main\<close>, at one of the two \<open>sys.exit(1)\<close>, or with an exception
  that nothing catches; the interpreter turns the last into exit status 1. The definition
  \<open>main\<close> below is the function from line 249 on, after \<open>parse_args\<close>; \<open>run\<close>, further
  down, is the whole of it.
\<close>

datatype format = FJson | FCsv

record args =
  results_dir :: path
  output_dir :: "path option"
  formats :: "format list"

datatype ending = Completed | ResultsDirNotFound | NoResultsFound | Uncaught error

fun exit_code :: "ending \<Rightarrow> nat" where
  "exit_code Completed = 0"
| "exit_code ResultsDirNotFound = 1"
| "exit_code NoResultsFound = 1"
| "exit_code (Uncaught e) = 1"

text \<open>The loop \<open>scene_stats[scene_name] = compute_scene_statistics(scene_results)\<close>.\<close>

fun per_scene :: "(string \<times> stats) list \<Rightarrow> all_results \<Rightarrow> error + (string \<times> stats) list" where
  "per_scene acc [] = Inr acc"
| "per_scene acc ((scene_name, scene_results) # rest) =
     (case compute_scene_statistics scene_results of
        Inl e \<Rightarrow> Inl e
      | Inr st \<Rightarrow> per_scene (AList.update scene_name st acc) rest)"

definition save_summary_json ::
  "fs \<Rightarrow> path \<Rightarrow> (string \<times> stats) list \<Rightarrow> stats \<Rightarrow> json \<Rightarrow> error + fs" where
  "save_summary_json fs output_path scene_stats overall_stats md =
     write_file fs output_path (Doc (summary scene_stats overall_stats md))"

definition save_csv :: "fs \<Rightarrow> path \<Rightarrow> stats \<Rightarrow> error + fs" where
  "save_csv fs output_path overall_stats = write_file fs output_path (Csv (csv_rows overall_stats))"

definition save_outputs ::
  "fs \<Rightarrow> args \<Rightarrow> path \<Rightarrow> (string \<times> stats) list \<Rightarrow> stats \<Rightarrow> json \<Rightarrow> ending \<times> fs" where
  "save_outputs fs a out scene_stats overall_stats md =
     (case (if FJson \<in> set (formats a)
            then save_summary_json fs (out @ [''aggregate_results.json'']) scene_stats
                   overall_stats md
            else Inr fs) of
        Inl e \<Rightarrow> (Uncaught e, fs)
      | Inr fs1 \<Rightarrow>
          (case (if FCsv \<in> set (formats a)
                 then save_csv fs1 (out @ [''aggregate_results.csv'']) overall_stats
                 else Inr fs1) of
             Inl e \<Rightarrow> (Uncaught e, fs1)
           | Inr fs2 \<Rightarrow> (Completed, fs2)))"

definition main :: "fs \<Rightarrow> args \<Rightarrow> ending \<times> fs" where
  "main fs a =
     (let out = (case output_dir a of Some p \<Rightarrow> p | None \<Rightarrow> results_dir a) in
      case mkdir_parents fs out of
        Inl e \<Rightarrow> (Uncaught e, fs)
      | Inr fs1 \<Rightarrow>
          if \<not> is_dir fs1 (results_dir a) then (ResultsDirNotFound, fs1)
          else
            (let all_results = collect_all_results fs1 (results_dir a) in
             if all_results = [] then (NoResultsFound, fs1)
             else
               (case per_scene [] all_results of
                  Inl e \<Rightarrow> (Uncaught e, fs1)
                | Inr scene_stats \<Rightarrow>
                    save_outputs fs1 a out scene_stats
                      (compute_overall_statistics scene_stats)
                      (metadata (results_dir a) all_results))))"

text \<open>
  The first statements of \<open>main\<close> (lines 236 to 247) build the parser and call
  \<open>parser.parse_args()\<close>. The call returns the namespace of an accepted command line, or
  \<open>argparse\<close> ends the process there by \<open>sys.exit\<close>: with status 2, after a usage message,
  when it rejects the command line (\<open>--results_dir\<close> is missing, a format is neither
  \<open>json\<close> nor \<open>csv\<close>, an option is unknown), and with status 0, after the help text,
  when \<open>-h\<close> or \<open>--help\<close> is given. Nothing has touched the file system by then. The
  outcome of the call is the input of \<open>run\<close>, the process from its start to its exit
  status.
\<close>

datatype parse_args = Namespace args | UsageError | HelpRequested

datatype process_ending = ParserExit nat | MainEnded ending

fun exit_status :: "process_ending \<Rightarrow> nat" where
  "exit_status (ParserExit status) = status"
| "exit_status (MainEnded e) = exit_code e"

fun run :: "fs \<Rightarrow> parse_args \<Rightarrow> process_ending \<times> fs" where
  "run fs UsageError = (ParserExit 2, fs)"
| "run fs HelpRequested = (ParserExit 0, fs)"
| "run fs (Namespace a) = (MainEnded (fst (main fs a)), snd (main fs a))"

section \<open>Reading the data structures\<close>

text \<open>
  \<open>lookup2 d k j\<close> is \<open>d[k][j]\<close> where both keys are present, and \<open>values_of\<close> reads a list of
  the two-level \<open>defaultdict\<close>. \<open>wf_lists\<close> says that a two-level dict has distinct keys at
  both levels, as every Python dict has.
\<close>

definition lookup2 :: "('k \<times> ('j \<times> 'v) list) list \<Rightarrow> 'k \<Rightarrow> 'j \<Rightarrow> 'v option" where
  "lookup2 d k j = (case map_of d k of None \<Rightarrow> None | Some inner \<Rightarrow> map_of inner j)"

definition values_of :: "'a metric_lists \<Rightarrow> string \<Rightarrow> string \<Rightarrow> 'a list" where
  "values_of d iteration_name metric_name = get_default (get_default d iteration_name) metric_name"

definition wf_lists :: "('k \<times> ('j \<times> 'v) list) list \<Rightarrow> bool" where
  "wf_lists d = (distinct (map fst d) \<and> list_all (\<lambda>kv. distinct (map fst (snd kv))) d)"

text \<open>
  The value one sub-unit reports for a (checkpoint label, metric) pair, if any, and the
  values of a scene's sub-units that pass the type test, in the order of the sub-units.
\<close>

definition reported :: "json \<Rightarrow> string \<Rightarrow> string \<Rightarrow> json option" where
  "reported case_data iteration_name metric_name =
     (case case_data of
        JObj its \<Rightarrow>
          (case map_of its iteration_name of
             Some (JObj kvs) \<Rightarrow> map_of kvs metric_name
           | _ \<Rightarrow> None)
      | _ \<Rightarrow> None)"

definition contributions :: "(int \<times> json) list \<Rightarrow> string \<Rightarrow> string \<Rightarrow> json list" where
  "contributions scene_results iteration_name metric_name =
     filter is_int_or_float
       (List.map_filter (\<lambda>(case_id, case_data). reported case_data iteration_name metric_name)
          scene_results)"

definition wf_scene :: "(int \<times> json) list \<Rightarrow> bool" where
  "wf_scene scene_results =
     (distinct (map fst scene_results) \<and> list_all (\<lambda>kv. wf_json (snd kv)) scene_results)"

text \<open>
  The means that the scenes report for a pair, one for each scene whose statistics hold
  the pair, in the order of the scenes.
\<close>

definition group_means :: "(string \<times> stats) list \<Rightarrow> string \<Rightarrow> string \<Rightarrow> real list" where
  "group_means all_scene_stats iteration_name metric_name =
     List.map_filter
       (\<lambda>(scene_name, scene_stats). map_option mean (lookup2 scene_stats iteration_name metric_name))
       all_scene_stats"

definition wf_scene_stats :: "(string \<times> stats) list \<Rightarrow> bool" where
  "wf_scene_stats all_scene_stats =
     (distinct (map fst all_scene_stats) \<and> list_all (\<lambda>kv. wf_lists (snd kv)) all_scene_stats)"

text \<open>The population standard deviation in the words of the specification: the divisor
  is the number of values.\<close>

definition population_std :: "real list \<Rightarrow> real" where
  "population_std xs =
     (let n = real (length xs); mu = sum_list xs / n
      in sqrt ((\<Sum>x\<leftarrow>xs. (x - mu)\<^sup>2) / n))"

text \<open>
  Scenario A: one scene whose sub-units 0 and 1 report PSNR 20.0 and 22.0 under
  \<open>ours_7000\<close>. Scenario B: two scenes with one sub-unit each, reporting PSNR 20.0 and 30.0.
\<close>

definition scenario_a :: "(int \<times> json) list" where
  "scenario_a =
     [(0, JObj [(''ours_7000'', JObj [(''PSNR'', JFloat 20)])]),
      (1, JObj [(''ours_7000'', JObj [(''PSNR'', JFloat 22)])])]"

definition scenario_b :: all_results where
  "scenario_b =
     [(''sceneA'', [(0, JObj [(''ours_7000'', JObj [(''PSNR'', JFloat 20)])])]),
      (''sceneB'', [(0, JObj [(''ours_7000'', JObj [(''PSNR'', JFloat 30)])])])]"

text \<open>The per-scene statistics of scenario B, as \<open>per_scene\<close> computes them.\<close>

definition scenario_b_stats_value :: "(string \<times> stats) list" where
  "scenario_b_stats_value =
     [(''sceneA'', [(''ours_7000'', [(''PSNR'',
              \<lparr>mean = 20, std = 0, min_stat = 20, max_stat = 20, count_stat = 1,
               values_stat = Some [JFloat 20]\<rparr>)])]),
          (''sceneB'', [(''ours_7000'', [(''PSNR'',
              \<lparr>mean = 30, std = 0, min_stat = 30, max_stat = 30, count_stat = 1,
               values_stat = Some [JFloat 30]\<rparr>)])])]"

text \<open>
  A results directory whose only child is \<open>sceneA_case-1\<close>, holding a \<open>results.json\<close>;
  and one with the children \<open>sceneA_case0\<close> and \<open>sceneB_caseX\<close> (scenario C), both
  holding a \<open>results.json\<close>.
\<close>

definition fs_negative :: fs where
  "fs_negative =
     [([''sceneA_case-1''], Dir),
      ([''sceneA_case-1'', ''results.json''],
         File (Doc (JObj [(''ours_7000'', JObj [(''PSNR'', JFloat 20)])])))]"

definition fs_scenario_c :: fs where
  "fs_scenario_c =
     [([''sceneB_caseX''], Dir),
      ([''sceneB_caseX'', ''results.json''],
         File (Doc (JObj [(''ours_7000'', JObj [(''PSNR'', JFloat 30)])]))),
      ([''sceneA_case0''], Dir),
      ([''sceneA_case0'', ''results.json''],
         File (Doc (JObj [(''ours_7000'', JObj [(''PSNR'', JFloat 20)])])))]"

text \<open>
  What the loop of the locator stores for a recognised directory: the value loaded from
  its \<open>results.json\<close>, if the file exists and the value is not \<open>None\<close>.
\<close>

definition parsed :: "fs \<Rightarrow> path \<Rightarrow> json option" where
  "parsed fs scene_case_dir =
     (let results_json_path = scene_case_dir @ [''results.json''] in
      if exists_path fs results_json_path \<and> load_results_json fs results_json_path \<noteq> JNull
      then Some (load_results_json fs results_json_path) else None)"

text \<open>Two directories that name the same sub-unit: \<open>int\<close> reads \<open>01\<close> and \<open>1\<close> as 1.\<close>

definition fs_duplicate :: fs where
  "fs_duplicate =
     [([''a_case1''], Dir),
      ([''a_case1'', ''results.json''],
         File (Doc (JObj [(''ours_7000'', JObj [(''PSNR'', JFloat 30)])]))),
      ([''a_case01''], Dir),
      ([''a_case01'', ''results.json''],
         File (Doc (JObj [(''ours_7000'', JObj [(''PSNR'', JFloat 20)])])))]"

text \<open>The output directory that \<open>main\<close> resolves from the command line.\<close>

definition output_path :: "args \<Rightarrow> path" where
  "output_path a = (case output_dir a of Some p \<Rightarrow> p | None \<Rightarrow> results_dir a)"

text \<open>
  A results directory with one sub-unit whose \<open>results.json\<close> holds, beside the metrics of
  \<open>ours_7000\<close>, a key \<open>note\<close> with a string; and the command line that names the root
  of the model as results directory, with the defaults for the rest.
\<close>

definition fs_extra_key :: fs where
  "fs_extra_key =
     [([''sceneA_case0''], Dir),
      ([''sceneA_case0'', ''results.json''],
         File (Doc (JObj [(''ours_7000'', JObj [(''PSNR'', JFloat 20)]),
                          (''note'', JStr ''partial'')])))]"

definition default_args :: args where
  "default_args = \<lparr>results_dir = [], output_dir = None, formats = [FJson, FCsv]\<rparr>"

text \<open>
  Two listings of one directory tree: the same nodes at the same paths, enumerated in
  any two orders.
\<close>

definition same_listing :: "fs \<Rightarrow> fs \<Rightarrow> bool" where
  "same_listing fs' fs = (node_at fs' = node_at fs \<and> mset fs' = mset fs)"

section \<open>Lemmas on the dictionaries and the two aggregation loops\<close>

lemma update_fresh: "k \<notin> fst ` set al \<Longrightarrow> AList.update k v al = al @ [(k, v)]"
  by (induction al) auto

lemma foldl_update_fresh:
  "distinct (map fst xs) \<Longrightarrow> fst ` set xs \<inter> fst ` set acc = {} \<Longrightarrow>
   foldl (\<lambda>d (k, v). if P v then AList.update k (f v) d else d) acc xs =
   acc @ map (\<lambda>(k, v). (k, f v)) (filter (\<lambda>(k, v). P v) xs)"
proof (induction xs arbitrary: acc)
  case Nil
  then show ?case by simp
next
  case (Cons x xs)
  obtain k v where x: "x = (k, v)" by (cases x)
  have fresh: "k \<notin> fst ` set acc" using Cons.prems(2) x by auto
  show ?case
  proof (cases "P v")
    case True
    have d: "fst ` set xs \<inter> fst ` set (acc @ [(k, f v)]) = {}"
      using Cons.prems x by force
    have "distinct (map fst xs)" using Cons.prems by simp
    from Cons.IH[OF this d] show ?thesis
      using True x by (simp add: update_fresh[OF fresh])
  next
    case False
    have d: "fst ` set xs \<inter> fst ` set acc = {}"
      using Cons.prems x by auto
    have "distinct (map fst xs)" using Cons.prems by simp
    from Cons.IH[OF this d] show ?thesis
      using False x by simp
  qed
qed

lemma fill_metrics_eq:
  "distinct (map fst ms) \<Longrightarrow>
   fill_metrics mk ms = map (\<lambda>(m, vs). (m, mk vs)) (filter (\<lambda>(m, vs). vs \<noteq> []) ms)"
  unfolding fill_metrics_def
  using foldl_update_fresh[of ms "[]" "\<lambda>vs. length vs > 0" mk] by simp

lemma build_stats_eq:
  "distinct (map fst d) \<Longrightarrow>
   build_stats mk d = map (\<lambda>(it, ms). (it, fill_metrics mk ms)) d"
  unfolding build_stats_def
  using foldl_update_fresh[of d "[]" "\<lambda>_. True" "fill_metrics mk"] by simp

lemma map_of_map_val: "map_of (map (\<lambda>(k, v). (k, f v)) xs) k = map_option f (map_of xs k)"
  by (induction xs) auto

lemma map_of_filter_val:
  "map_of (filter (\<lambda>(k, v). P v) xs) k =
   (case map_of xs k of None \<Rightarrow> None | Some v \<Rightarrow> if P v then Some v else None)" if "distinct (map fst xs)"
  using that
proof (induction xs)
  case Nil then show ?case by simp
next
  case (Cons x xs)
  obtain a b where x: "x = (a, b)" by (cases x)
  have nk: "map_of xs a = None" using Cons.prems x by (simp add: map_of_eq_None_iff)
  have nk2: "map_of (filter (\<lambda>(k, v). P v) xs) a = None"
    using Cons.prems x by (auto simp: map_of_eq_None_iff)
  show ?case using Cons x nk nk2 by (auto split: option.splits)
qed

lemma wf_lists_inner: "wf_lists d \<Longrightarrow> map_of d k = Some ms \<Longrightarrow> distinct (map fst ms)"
  by (auto simp: wf_lists_def list_all_iff dest!: map_of_SomeD)

lemma lookup2_build_stats:
  assumes "wf_lists d"
  shows "lookup2 (build_stats mk d) it m =
         (if values_of d it m = [] then None else Some (mk (values_of d it m)))"
proof (cases "map_of d it")
  case None
  then show ?thesis using assms
    by (simp add: lookup2_def build_stats_eq wf_lists_def map_of_map_val values_of_def get_default_def)
next
  case (Some ms)
  have dm: "distinct (map fst ms)" using wf_lists_inner[OF assms Some] .
  show ?thesis using assms Some
    by (simp add: lookup2_def build_stats_eq wf_lists_def map_of_map_val values_of_def
        get_default_def fill_metrics_eq[OF dm] map_of_filter_val[OF dm] split: option.splits)
qed

lemma values_of_append_value:
  "values_of (append_value d it m v) it' m' =
   (if it' = it \<and> m' = m then values_of d it m @ [v] else values_of d it' m')"
  by (auto simp: values_of_def append_value_def get_default_def Let_def AList.update_conv'
      split: option.splits)

lemma set_update_subset: "set (AList.update k v al) \<subseteq> insert (k, v) (set al)"
  by (induction al) auto

lemma wf_lists_update:
  "wf_lists d \<Longrightarrow> distinct (map fst inner) \<Longrightarrow> wf_lists (AList.update k inner d)"
  using set_update_subset[of k inner d]
  by (auto simp: wf_lists_def list_all_iff AList.distinct_update)

lemma distinct_get_default: "wf_lists d \<Longrightarrow> distinct (map fst (get_default d k))"
  by (auto simp: get_default_def dest: wf_lists_inner split: option.splits)

lemma wf_lists_append_value: "wf_lists d \<Longrightarrow> wf_lists (append_value d it m v)"
  by (simp add: append_value_def Let_def wf_lists_update AList.distinct_update distinct_get_default)

lemma wf_lists_Nil: "wf_lists []"
  by (simp add: wf_lists_def)

lemma values_of_add_metrics:
  "distinct (map fst kvs) \<Longrightarrow>
   values_of (foldl (add_metric it) d kvs) it' m' =
   values_of d it' m' @
     (if it' = it then
        (case map_of kvs m' of Some v \<Rightarrow> if is_int_or_float v then [v] else [] | None \<Rightarrow> [])
      else [])"
proof (induction kvs arbitrary: d)
  case Nil
  then show ?case by simp
next
  case (Cons kv kvs)
  obtain k v where kv: "kv = (k, v)" by (cases kv)
  have nk: "map_of kvs k = None" using Cons.prems kv by (simp add: map_of_eq_None_iff)
  have dk: "distinct (map fst kvs)" using Cons.prems by simp
  show ?case
    using Cons.IH[OF dk, of "add_metric it d kv"] kv nk
    by (auto simp: add_metric_def values_of_append_value split: option.splits)
qed

lemma values_of_scan_case_data:
  "distinct (map fst its) \<Longrightarrow> list_all (\<lambda>kv. wf_json (snd kv)) its \<Longrightarrow>
   scan_case_data d its = Inr d' \<Longrightarrow>
   values_of d' it m =
   values_of d it m @
     (case reported (JObj its) it m of
        Some v \<Rightarrow> if is_int_or_float v then [v] else [] | None \<Rightarrow> [])"
proof (induction its arbitrary: d)
  case Nil
  then show ?case by (simp add: reported_def)
next
  case (Cons p its)
  obtain k ms where p: "p = (k, ms)" by (cases p)
  from Cons.prems(3) p obtain kvs where ms: "ms = JObj kvs"
    by (cases ms) auto
  have dk: "distinct (map fst kvs)" using Cons.prems(2) p ms by simp
  have nk: "map_of its k = None" using Cons.prems(1) p by (simp add: map_of_eq_None_iff)
  have d1: "distinct (map fst its)" using Cons.prems(1) by simp
  have w1: "list_all (\<lambda>kv. wf_json (snd kv)) its" using Cons.prems(2) by simp
  have s1: "scan_case_data (foldl (add_metric k) d kvs) its = Inr d'"
    using Cons.prems(3) p ms by simp
  show ?case
    using Cons.IH[OF d1 w1 s1] nk p ms values_of_add_metrics[OF dk, of k d it m]
    by (auto simp: reported_def split: option.splits json.splits)
qed

lemma values_of_scan_cases:
  "list_all (\<lambda>kv. wf_json (snd kv)) scene_results \<Longrightarrow>
   scan_cases d scene_results = Inr d' \<Longrightarrow>
   values_of d' it m = values_of d it m @ contributions scene_results it m"
proof (induction scene_results arbitrary: d)
  case Nil
  then show ?case by (simp add: contributions_def List.map_filter_simps)
next
  case (Cons p rest)
  obtain cid cd where p: "p = (cid, cd)" by (cases p)
  from Cons.prems(2) p obtain its where cd: "cd = JObj its"
    by (cases cd) auto
  from Cons.prems(2) p cd obtain d1 where d1: "scan_case_data d its = Inr d1"
    and r: "scan_cases d1 rest = Inr d'"
    by (auto split: sum.splits)
  have w: "distinct (map fst its)" "list_all (\<lambda>kv. wf_json (snd kv)) its"
    using Cons.prems(1) p cd by simp_all
  have w1: "list_all (\<lambda>kv. wf_json (snd kv)) rest" using Cons.prems(1) by simp
  show ?case
    using Cons.IH[OF w1 r] values_of_scan_case_data[OF w d1, of it m] p cd
    by (auto simp: contributions_def List.map_filter_simps split: option.splits)
qed

lemma wf_lists_add_metrics: "wf_lists d \<Longrightarrow> wf_lists (foldl (add_metric it) d kvs)"
  by (induction kvs arbitrary: d) (auto simp: add_metric_def wf_lists_append_value)

lemma wf_lists_scan_case_data: "wf_lists d \<Longrightarrow> scan_case_data d its = Inr d' \<Longrightarrow> wf_lists d'"
proof (induction its arbitrary: d)
  case Nil then show ?case by simp
next
  case (Cons p its)
  obtain k ms where p: "p = (k, ms)" by (cases p)
  from Cons.prems(2) p obtain kvs where ms: "ms = JObj kvs" by (cases ms) auto
  show ?case using Cons p ms by (auto intro: wf_lists_add_metrics)
qed

lemma wf_lists_scan_cases: "wf_lists d \<Longrightarrow> scan_cases d sr = Inr d' \<Longrightarrow> wf_lists d'"
proof (induction sr arbitrary: d)
  case Nil then show ?case by simp
next
  case (Cons p rest)
  obtain cid cd where p: "p = (cid, cd)" by (cases p)
  from Cons.prems(2) p obtain its where cd: "cd = JObj its" by (cases cd) auto
  from Cons.prems(2) p cd obtain d1 where d1: "scan_case_data d its = Inr d1"
    and r: "scan_cases d1 rest = Inr d'"
    by (auto split: sum.splits)
  show ?case using Cons.IH[OF wf_lists_scan_case_data[OF Cons.prems(1) d1] r] .
qed

lemma values_of_Nil: "values_of [] it m = []"
  by (simp add: values_of_def get_default_def)

lemma compute_scene_statistics_lookup:
  assumes "list_all (\<lambda>kv. wf_json (snd kv)) scene_results"
    and "compute_scene_statistics scene_results = Inr st"
  shows "lookup2 st it m =
         (if contributions scene_results it m = [] then None
          else Some (scene_block (contributions scene_results it m)))"
proof -
  from assms(2) obtain d where d: "scan_cases [] scene_results = Inr d"
    and st: "st = build_stats scene_block d"
    by (auto simp: compute_scene_statistics_def split: sum.splits)
  have wf: "wf_lists d" using wf_lists_scan_cases[OF wf_lists_Nil d] .
  have v: "values_of d it m = contributions scene_results it m"
    using values_of_scan_cases[OF assms(1) d, of it m] by (simp add: values_of_Nil)
  show ?thesis using lookup2_build_stats[OF wf, of scene_block it m] st v by simp
qed

lemma values_of_add_means:
  "distinct (map fst ms) \<Longrightarrow>
   values_of (foldl (\<lambda>d (metric_name, st). append_value d it metric_name (mean st)) d ms) it' m' =
   values_of d it' m' @
     (if it' = it then (case map_of ms m' of Some st \<Rightarrow> [mean st] | None \<Rightarrow> []) else [])"
proof (induction ms arbitrary: d)
  case Nil
  then show ?case by simp
next
  case (Cons kv ms)
  obtain k v where kv: "kv = (k, v)" by (cases kv)
  have nk: "map_of ms k = None" using Cons.prems kv by (simp add: map_of_eq_None_iff)
  have dk: "distinct (map fst ms)" using Cons.prems by simp
  show ?case
    using Cons.IH[OF dk, of "append_value d it k (mean v)"] kv nk
    by (auto simp: values_of_append_value split: option.splits)
qed

lemma values_of_add_scene:
  "wf_lists sst \<Longrightarrow>
   values_of
     (foldl (\<lambda>d (iteration_name, metrics).
        foldl (\<lambda>d (metric_name, st). append_value d iteration_name metric_name (mean st)) d metrics)
        d sst) it' m' =
   values_of d it' m' @ (case lookup2 sst it' m' of Some st \<Rightarrow> [mean st] | None \<Rightarrow> [])"
proof (induction sst arbitrary: d)
  case Nil
  then show ?case by (simp add: lookup2_def)
next
  case (Cons p sst)
  obtain k ms where p: "p = (k, ms)" by (cases p)
  have nk: "map_of sst k = None" using Cons.prems p by (simp add: map_of_eq_None_iff wf_lists_def)
  have dk: "distinct (map fst ms)" using Cons.prems p by (simp add: wf_lists_def)
  have w: "wf_lists sst" using Cons.prems by (simp add: wf_lists_def)
  show ?case
    using Cons.IH[OF w] p nk values_of_add_means[OF dk, of k d it' m']
    by (auto simp: lookup2_def split: option.splits)
qed

lemma values_of_overall_fold:
  "list_all (\<lambda>kv. wf_lists (snd kv)) all_scene_stats \<Longrightarrow>
   values_of
     (foldl (\<lambda>d (scene_name, scene_stats).
        foldl (\<lambda>d (iteration_name, metrics).
          foldl (\<lambda>d (metric_name, st). append_value d iteration_name metric_name (mean st))
            d metrics)
          d scene_stats)
       d all_scene_stats) it m =
   values_of d it m @ group_means all_scene_stats it m"
proof (induction all_scene_stats arbitrary: d)
  case Nil
  then show ?case by (simp add: group_means_def List.map_filter_simps)
next
  case (Cons p rest)
  obtain k sst where p: "p = (k, sst)" by (cases p)
  have w: "wf_lists sst" using Cons.prems p by simp
  have w1: "list_all (\<lambda>kv. wf_lists (snd kv)) rest" using Cons.prems by simp
  show ?case
    using Cons.IH[OF w1] p values_of_add_scene[OF w, of d it m]
    by (auto simp: group_means_def List.map_filter_simps split: option.splits)
qed

lemma values_of_overall_lists:
  "list_all (\<lambda>kv. wf_lists (snd kv)) all_scene_stats \<Longrightarrow>
   values_of (overall_lists all_scene_stats) it m = group_means all_scene_stats it m"
  unfolding overall_lists_def
  using values_of_overall_fold[of all_scene_stats "[]" it m] by (simp add: values_of_Nil)

lemma wf_lists_add_means:
  "wf_lists d \<Longrightarrow>
   wf_lists (foldl (\<lambda>d (metric_name, st). append_value d it metric_name (mean st)) d ms)"
  by (induction ms arbitrary: d) (auto simp: wf_lists_append_value)

lemma wf_lists_add_scene:
  "wf_lists d \<Longrightarrow>
   wf_lists
     (foldl (\<lambda>d (iteration_name, metrics).
        foldl (\<lambda>d (metric_name, st). append_value d iteration_name metric_name (mean st)) d metrics)
        d sst)"
  by (induction sst arbitrary: d) (auto simp: wf_lists_add_means)

lemma wf_lists_overall_fold:
  "wf_lists d \<Longrightarrow>
   wf_lists
     (foldl (\<lambda>d (scene_name, scene_stats).
        foldl (\<lambda>d (iteration_name, metrics).
          foldl (\<lambda>d (metric_name, st). append_value d iteration_name metric_name (mean st))
            d metrics)
          d scene_stats)
       d all_scene_stats)"
  by (induction all_scene_stats arbitrary: d) (auto simp: wf_lists_add_scene)

lemma wf_lists_overall_lists: "wf_lists (overall_lists all_scene_stats)"
  unfolding overall_lists_def by (rule wf_lists_overall_fold[OF wf_lists_Nil])

lemma compute_overall_statistics_lookup:
  assumes "list_all (\<lambda>kv. wf_lists (snd kv)) all_scene_stats"
  shows "lookup2 (compute_overall_statistics all_scene_stats) it m =
         (if group_means all_scene_stats it m = [] then None
          else Some (overall_block (group_means all_scene_stats it m)))"
  unfolding compute_overall_statistics_def
  using lookup2_build_stats[OF wf_lists_overall_lists, of overall_block all_scene_stats it m]
    values_of_overall_lists[OF assms, of it m] by simp

lemma length_map_filter: "length (List.map_filter f xs) = length (filter (\<lambda>x. f x \<noteq> None) xs)"
  by (induction xs) (auto simp: List.map_filter_simps split: option.splits)

lemma np_std_population: "np_std 0 xs = population_std xs"
  by (simp add: np_std_def population_std_def np_mean_def Let_def)

lemma sqrt_25: "sqrt 25 = 5"
  using real_sqrt_abs[of 5] by simp

lemmas eval_defs =
  compute_scene_statistics_def build_stats_def fill_metrics_def scene_block_def
  add_metric_def append_value_def get_default_def np_mean_def np_std_def tolist_def
  compute_overall_statistics_def overall_lists_def overall_block_def

lemma scenario_a_stats:
  "compute_scene_statistics scenario_a =
     Inr [(''ours_7000'', [(''PSNR'',
        \<lparr>mean = 21, std = 1, min_stat = 20, max_stat = 22, count_stat = 2,
         values_stat = Some [JFloat 20, JFloat 22]\<rparr>)])]"
  by (simp add: scenario_a_def eval_defs)

lemma scenario_b_stats:
  "per_scene [] scenario_b =
     Inr [(''sceneA'', [(''ours_7000'', [(''PSNR'',
              \<lparr>mean = 20, std = 0, min_stat = 20, max_stat = 20, count_stat = 1,
               values_stat = Some [JFloat 20]\<rparr>)])]),
          (''sceneB'', [(''ours_7000'', [(''PSNR'',
              \<lparr>mean = 30, std = 0, min_stat = 30, max_stat = 30, count_stat = 1,
               values_stat = Some [JFloat 30]\<rparr>)])])]"
  by (simp add: scenario_b_def eval_defs)

lemma scenario_b_overall:
  "map_sum id compute_overall_statistics (per_scene [] scenario_b) =
     Inr [(''ours_7000'', [(''PSNR'',
        \<lparr>mean = 25, std = 5, min_stat = 20, max_stat = 30, count_stat = 2,
         values_stat = None\<rparr>)])]"
  by (simp add: scenario_b_stats eval_defs sqrt_25)


subsection \<open>\<open>split\<close> at the delimiter\<close>

lemma split_py_nonempty: "split_py sep cur s \<noteq> []"
  by (induction sep cur s rule: split_py.induct) auto

lemma split_py_no_delimiter: "\<not> contains sep s \<Longrightarrow> split_py sep cur s = [cur @ s]"
  by (induction s arbitrary: cur) auto

lemma split_py_two_parts:
  "sep \<noteq> [] \<Longrightarrow> contains sep s \<Longrightarrow> 2 \<le> length (split_py sep cur s)"
proof (induction s arbitrary: cur)
  case Nil
  then show ?case by simp
next
  case (Cons c cs)
  show ?case
  proof (cases "starts_with sep (c # cs)")
    case True
    have "1 \<le> length (split_py sep [] (drop (length sep - 1) cs))"
      using split_py_nonempty[of sep "[]" "drop (length sep - 1) cs"]
      by (cases "split_py sep [] (drop (length sep - 1) cs)") auto
    then show ?thesis using True Cons.prems(1) by simp
  next
    case False
    then show ?thesis using Cons by simp
  qed
qed

lemma no_straddle:
  assumes "\<not> contains ''_case'' l" "l \<noteq> []"
  shows "\<not> starts_with ''_case'' (l @ ''_case'' @ r)"
proof
  assume s: "starts_with ''_case'' (l @ ''_case'' @ r)"
  show False
  proof (cases "5 \<le> length l")
    case True
    then have "starts_with ''_case'' l" using s by (simp add: starts_with_def)
    then show False using assms by (cases l) auto
  next
    case False
    have len: "length ''_case'' = 5" by simp
    have t: "take 5 (l @ ''_case'' @ r) = ''_case''"
      using s unfolding starts_with_def len .
    have "''_case'' ! length l = take 5 (l @ ''_case'' @ r) ! length l"
      by (simp only: t)
    also have "\<dots> = (l @ ''_case'' @ r) ! length l"
      by (rule nth_take) (use False in simp)
    also have "\<dots> = CHR ''_''"
      by (simp add: nth_append)
    finally have e: "''_case'' ! length l = CHR ''_''" .
    have "1 \<le> length l" using assms(2) by (cases l) simp_all
    moreover have "length l < 5" using False by simp
    ultimately have "length l = 1 \<or> length l = 2 \<or> length l = 3 \<or> length l = 4"
      by arith
    then show False using e by auto
  qed
qed

lemma split_py_first:
  "\<not> contains ''_case'' l \<Longrightarrow>
   split_py ''_case'' cur (l @ ''_case'' @ r) = (cur @ l) # split_py ''_case'' [] r"
proof (induction l arbitrary: cur)
  case Nil
  then show ?case by (simp add: starts_with_def)
next
  case (Cons c l)
  have ns: "\<not> starts_with ''_case'' ((c # l) @ ''_case'' @ r)"
    using no_straddle[OF Cons.prems] by simp
  have nl: "\<not> contains ''_case'' l" using Cons.prems by simp
  show ?case using ns Cons.IH[OF nl, of "cur @ [c]"] by simp
qed

lemma extract_one_delimiter:
  assumes "\<not> contains ''_case'' l" "\<not> contains ''_case'' r"
  shows "extract_scene_and_case (l @ ''_case'' @ r) = map_option (Pair l) (py_int r)"
proof -
  have "split_py ''_case'' [] (l @ ''_case'' @ r) = [l, r]"
    using split_py_first[OF assms(1), of "[]" r] split_py_no_delimiter[OF assms(2), of "[]"]
    by simp
  then show ?thesis
    unfolding extract_scene_and_case_def by (simp split: option.splits)
qed

lemma extract_more_delimiters:
  assumes "\<not> contains ''_case'' l" "contains ''_case'' r"
  shows "extract_scene_and_case (l @ ''_case'' @ r) = None"
proof -
  have "2 \<le> length (split_py ''_case'' [] r)"
    using split_py_two_parts[OF _ assms(2)] by simp
  then obtain a b xs where "split_py ''_case'' [] r = a # b # xs"
    by (cases "split_py ''_case'' [] r"; cases "tl (split_py ''_case'' [] r)") auto
  then have "split_py ''_case'' [] (l @ ''_case'' @ r) = l # a # b # xs"
    using split_py_first[OF assms(1), of "[]" r] by simp
  then show ?thesis
    unfolding extract_scene_and_case_def by simp
qed

lemma extract_no_delimiter:
  "\<not> contains ''_case'' name \<Longrightarrow> extract_scene_and_case name = None"
  by (simp add: extract_scene_and_case_def split_py_no_delimiter)

lemmas int_defs =
  extract_scene_and_case_def starts_with_def py_int_def strip_def py_isspace_def
  py_digits_def is_digit_def digits_value_def digit_val_def

subsection \<open>The loop of the locator\<close>

lemmas fs_defs =
  collect_all_results_def collect_loop_def scene_case_dirs_def
  iterdir_def is_dir_def node_at_def collect_step_def exists_path_def load_results_json_def
  get_default_def

lemma collect_loop_skip:
  assumes "extract_scene_and_case (last d) = None"
  shows "collect_loop fs (xs @ d # ys) = collect_loop fs (xs @ ys)"
proof -
  have "collect_step fs st d = st" for st
    using assms by (simp add: collect_step_def)
  then show ?thesis by (simp add: collect_loop_def)
qed

lemma lookup2_update2:
  "lookup2 (AList.update s (AList.update c r (get_default ar s)) ar) g i =
   (if g = s \<and> i = c then Some r else lookup2 ar g i)"
  by (auto simp: lookup2_def AList.update_conv' get_default_def split: option.splits)

lemma lookup2_collect_step:
  "lookup2 (fst (collect_step fs st d)) g i =
   (if extract_scene_and_case (last d) = Some (g, i) \<and> parsed fs d \<noteq> None then parsed fs d
    else lookup2 (fst st) g i)"
  by (auto simp: collect_step_def parsed_def Let_def lookup2_update2 split: option.splits)

lemma lookup2_collect_later:
  "(\<forall>d\<in>set zs. extract_scene_and_case (last d) = Some (g, i) \<longrightarrow> parsed fs d = None) \<Longrightarrow>
   lookup2 (fst (foldl (collect_step fs) st zs)) g i = lookup2 (fst st) g i"
  by (induction zs arbitrary: st) (auto simp: lookup2_collect_step)

subsection \<open>Enumeration order and the origin of the entries\<close>

lemma node_at_permutation:
  assumes "distinct (map fst fs)" "mset fs' = mset fs"
  shows "node_at fs' = node_at fs"
proof -
  have "mset (map fst fs') = mset (map fst fs)" using assms(2) by simp
  then have d: "distinct (map fst fs')" using assms(1) by (metis mset_eq_imp_distinct_iff)
  have "set fs' = set fs" using assms(2) by (rule mset_eq_setD)
  then have "map_of fs' = map_of fs" using map_of_inject_set[OF d assms(1)] by simp
  then show ?thesis by (simp add: fun_eq_iff node_at_def)
qed

lemma collect_step_same_nodes:
  assumes "node_at fs' = node_at fs"
  shows "collect_step fs' = collect_step fs"
proof -
  have e: "exists_path fs' = exists_path fs"
    by (simp add: fun_eq_iff exists_path_def assms)
  have l: "load_results_json fs' = load_results_json fs"
    by (simp add: fun_eq_iff load_results_json_def assms)
  show ?thesis
    by (rule ext, rule ext) (simp only: collect_step_def e l)
qed

lemma sort_permutation: "mset xs = mset ys \<Longrightarrow> sort xs = sort ys"
  by (rule properties_for_sort) simp_all

lemma scene_case_dirs_permutation:
  assumes "node_at fs' = node_at fs" "mset fs' = mset fs"
  shows "scene_case_dirs fs' rd = scene_case_dirs fs rd"
proof -
  have "mset (map fst fs') = mset (map fst fs)" using assms(2) by simp
  then have "mset (iterdir fs' rd) = mset (iterdir fs rd)"
    by (simp add: iterdir_def)
  then have "mset [d \<leftarrow> iterdir fs' rd. is_dir fs' d \<and> contains ''_case'' (last d)] =
    mset [d \<leftarrow> iterdir fs rd. is_dir fs d \<and> contains ''_case'' (last d)]"
    using assms(1) by (simp add: is_dir_def)
  then show ?thesis unfolding scene_case_dirs_def by (rule sort_permutation)
qed

lemma collect_all_results_permutation:
  assumes "distinct (map fst fs)" "mset fs' = mset fs"
  shows "collect_all_results fs' rd = collect_all_results fs rd"
proof -
  have n: "node_at fs' = node_at fs" by (rule node_at_permutation[OF assms])
  show ?thesis
    unfolding collect_all_results_def collect_loop_def
      collect_step_same_nodes[OF n] scene_case_dirs_permutation[OF n assms(2)] ..
qed

lemma get_default_entries:
  assumes "(i, r) \<in> set (get_default ar g)"
  shows "\<exists>cases. (g, cases) \<in> set ar \<and> (i, r) \<in> set cases"
proof (cases "map_of ar g")
  case None
  then show ?thesis using assms by (simp add: get_default_def)
next
  case (Some cases)
  then have "(g, cases) \<in> set ar" by (rule map_of_SomeD)
  moreover have "(i, r) \<in> set cases" using assms Some by (simp add: get_default_def)
  ultimately show ?thesis by blast
qed

lemma collect_step_cases:
  "collect_step fs st d =
     (case extract_scene_and_case (last d) of
        None \<Rightarrow> st
      | Some (g, i) \<Rightarrow>
          (case parsed fs d of
             Some r \<Rightarrow> (AList.update g (AList.update i r (get_default (fst st) g)) (fst st), snd st)
           | None \<Rightarrow>
               if exists_path fs (d @ [''results.json'']) then st else (fst st, Suc (snd st))))"
  by (simp add: collect_step_def parsed_def Let_def split: option.splits)

lemma entries_collect_step:
  assumes a: "(g, cases) \<in> set (fst (collect_step fs st d))" and b: "(i, r) \<in> set cases"
  shows "(\<exists>cases0. (g, cases0) \<in> set (fst st) \<and> (i, r) \<in> set cases0)
         \<or> (extract_scene_and_case (last d) = Some (g, i) \<and> parsed fs d = Some r)"
proof (cases "extract_scene_and_case (last d)")
  case None
  then have "fst (collect_step fs st d) = fst st" by (simp add: collect_step_cases)
  then show ?thesis using a b by auto
next
  case (Some gi)
  obtain g0 i0 where gi: "gi = (g0, i0)" by (cases gi)
  show ?thesis
  proof (cases "parsed fs d")
    case None
    then have "fst (collect_step fs st d) = fst st"
      using Some gi by (simp add: collect_step_cases)
    then show ?thesis using a b by auto
  next
    case (Some r0)
    have st: "fst (collect_step fs st d) =
      AList.update g0 (AList.update i0 r0 (get_default (fst st) g0)) (fst st)"
      using Some \<open>extract_scene_and_case (last d) = Some gi\<close> gi
      by (simp add: collect_step_cases)
    from a[unfolded st] set_update_subset[of g0 "AList.update i0 r0 (get_default (fst st) g0)" "fst st"]
    consider (old) "(g, cases) \<in> set (fst st)"
      | (new) "g = g0" "cases = AList.update i0 r0 (get_default (fst st) g0)" by auto
    then show ?thesis
    proof cases
      case old
      then show ?thesis using b by blast
    next
      case new
      from b new(2) set_update_subset[of i0 r0 "get_default (fst st) g0"]
      consider (same) "i = i0" "r = r0" | (other) "(i, r) \<in> set (get_default (fst st) g0)"
        by auto
      then show ?thesis
      proof cases
        case same
        then show ?thesis
          using Some \<open>extract_scene_and_case (last d) = Some gi\<close> gi new(1) by simp
      next
        case other
        from get_default_entries[OF other] show ?thesis using new(1) by blast
      qed
    qed
  qed
qed

lemma entries_collect_foldl:
  "(g, cases) \<in> set (fst (foldl (collect_step fs) st dirs)) \<Longrightarrow> (i, r) \<in> set cases \<Longrightarrow>
   (\<exists>cases0. (g, cases0) \<in> set (fst st) \<and> (i, r) \<in> set cases0)
   \<or> (\<exists>d\<in>set dirs. extract_scene_and_case (last d) = Some (g, i) \<and> parsed fs d = Some r)"
proof (induction dirs arbitrary: st)
  case Nil
  then show ?case by auto
next
  case (Cons d dirs)
  from Cons.prems have "(g, cases) \<in> set (fst (foldl (collect_step fs) (collect_step fs st d) dirs))"
    by simp
  from Cons.IH[OF this Cons.prems(2)]
  consider (step) cases0 where "(g, cases0) \<in> set (fst (collect_step fs st d))" "(i, r) \<in> set cases0"
    | (later) "\<exists>d\<in>set dirs. extract_scene_and_case (last d) = Some (g, i) \<and> parsed fs d = Some r"
    by blast
  then show ?case
  proof cases
    case step
    from entries_collect_step[OF step] show ?thesis by auto
  next
    case later
    then show ?thesis by auto
  qed
qed

subsection \<open>Creating the output directory\<close>

lemma os_mkdir_Inr:
  "os_mkdir fs p = Inr fs1 \<Longrightarrow> fs1 = fs @ [(p, Dir)] \<and> node_at fs p = None"
  by (auto simp: os_mkdir_def split: option.splits node.splits)

lemma node_at_append:
  "node_at (fs @ new) q = (if q = [] then Some Dir else case map_of fs q of Some n \<Rightarrow> Some n | None \<Rightarrow> map_of new q)"
  by (simp add: node_at_def map_add_def split: option.splits)

lemma is_dir_after_os_mkdir:
  assumes "os_mkdir fs p = Inr fs1"
  shows "is_dir fs1 p"
proof (cases "p = []")
  case True
  then show ?thesis by (simp add: is_dir_def node_at_def)
next
  case False
  from os_mkdir_Inr[OF assms] have "fs1 = fs @ [(p, Dir)]" "map_of fs p = None"
    using False by (simp_all add: node_at_def)
  then show ?thesis using False by (simp add: is_dir_def node_at_append)
qed

lemma mkdir_parents_is_dir: "mkdir_parents fs p = Inr fs1 \<Longrightarrow> is_dir fs1 p"
proof (induction fs p arbitrary: fs1 rule: mkdir_parents.induct)
  case (1 fs p)
  show ?case
  proof (cases "os_mkdir fs p")
    case (Inr fs')
    then show ?thesis using "1.prems" is_dir_after_os_mkdir[OF Inr]
      by (subst (asm) mkdir_parents.simps) simp
  next
    case (Inl e)
    show ?thesis
    proof (cases "e = FileNotFoundError")
      case False
      then show ?thesis using "1.prems" Inl
        by (subst (asm) mkdir_parents.simps) (simp split: if_splits)
    next
      case True
      show ?thesis
      proof (cases "p = []")
        case True
        then show ?thesis by (simp add: is_dir_def node_at_def)
      next
        case False
        from "1.prems" Inl True False obtain fs' where
          p: "mkdir_parents fs (butlast p) = Inr fs'"
          and r: "(case os_mkdir fs' p of Inr fs'' \<Rightarrow> Inr fs''
                   | Inl e' \<Rightarrow> if is_dir fs' p then Inr fs' else Inl e') = Inr fs1"
          by (subst (asm) mkdir_parents.simps) (auto split: sum.splits)
        show ?thesis
        proof (cases "os_mkdir fs' p")
          case (Inr fs'')
          then show ?thesis using r is_dir_after_os_mkdir[OF Inr] by simp
        next
          case (Inl e')
          then show ?thesis using r by (simp split: if_splits)
        qed
      qed
    qed
  qed
qed

lemma mkdir_parents_new:
  "mkdir_parents fs p = Inr fs1 \<Longrightarrow>
   \<exists>new. fs1 = fs @ map (\<lambda>q. (q, Dir)) new \<and> (\<forall>q\<in>set new. length q \<le> length p)"
proof (induction fs p arbitrary: fs1 rule: mkdir_parents.induct)
  case (1 fs p)
  show ?case
  proof (cases "os_mkdir fs p")
    case (Inr fs')
    then have "fs1 = fs @ map (\<lambda>q. (q, Dir)) [p]"
      using "1.prems" os_mkdir_Inr[OF Inr] by (subst (asm) mkdir_parents.simps) simp
    then show ?thesis by (intro exI[of _ "[p]"]) simp
  next
    case (Inl e)
    show ?thesis
    proof (cases "e = FileNotFoundError")
      case False
      then have "fs1 = fs @ map (\<lambda>q. (q, Dir)) []" using "1.prems" Inl
        by (subst (asm) mkdir_parents.simps) (simp split: if_splits)
      then show ?thesis by (intro exI[of _ "[]"]) simp
    next
      case True
      show ?thesis
      proof (cases "p = []")
        case True
        then show ?thesis using "1.prems" Inl \<open>e = FileNotFoundError\<close>
          by (subst (asm) mkdir_parents.simps) simp
      next
        case False
        from "1.prems" Inl True False obtain fs' where
          p: "mkdir_parents fs (butlast p) = Inr fs'"
          and r: "(case os_mkdir fs' p of Inr fs'' \<Rightarrow> Inr fs''
                   | Inl e' \<Rightarrow> if is_dir fs' p then Inr fs' else Inl e') = Inr fs1"
          by (subst (asm) mkdir_parents.simps) (auto split: sum.splits)
        from "1.IH"[OF Inl True False p] obtain new where
          new: "fs' = fs @ map (\<lambda>q. (q, Dir)) new" "\<forall>q\<in>set new. length q \<le> length (butlast p)"
          by blast
        show ?thesis
        proof (cases "os_mkdir fs' p")
          case (Inr fs'')
          then have "fs1 = fs @ map (\<lambda>q. (q, Dir)) (new @ [p])"
            using r os_mkdir_Inr[OF Inr] new(1) by simp
          moreover have "\<forall>q\<in>set (new @ [p]). length q \<le> length p" using new(2) by auto
          ultimately show ?thesis by blast
        next
          case (Inl e')
          then have "fs1 = fs @ map (\<lambda>q. (q, Dir)) new" using r new(1) by (simp split: if_splits)
          moreover have "\<forall>q\<in>set new. length q \<le> length p" using new(2) by auto
          ultimately show ?thesis by blast
        qed
      qed
    qed
  qed
qed

lemma iterdir_missing:
  assumes "wf_fs fs" "node_at fs d = None"
  shows "iterdir fs d = []"
proof -
  have "\<not> (p \<noteq> [] \<and> butlast p = d)" if "p \<in> set (map fst fs)" for p
  proof -
    from assms(1) that have "is_dir fs (butlast p)"
      by (auto simp: wf_fs_def list_all_iff)
    then show ?thesis using assms(2) by (auto simp: is_dir_def)
  qed
  then show ?thesis unfolding iterdir_def by (simp add: filter_empty_conv)
qed

lemma iterdir_created:
  assumes "wf_fs fs" "node_at fs d = None" "mkdir_parents fs d = Inr fs1"
  shows "iterdir fs1 d = []"
proof -
  from mkdir_parents_new[OF assms(3)] obtain new where
    new: "fs1 = fs @ map (\<lambda>q. (q, Dir)) new" "\<forall>q\<in>set new. length q \<le> length d" by blast
  have "\<not> (q \<noteq> [] \<and> butlast q = d)" if "q \<in> set new" for q
  proof
    assume "q \<noteq> [] \<and> butlast q = d"
    then have "length q = Suc (length d)" by (cases q rule: rev_cases) auto
    then show False using new(2) that by auto
  qed
  then have "[q \<leftarrow> new. q \<noteq> [] \<and> butlast q = d] = []" by (simp add: filter_empty_conv)
  then show ?thesis
    using iterdir_missing[OF assms(1,2)] by (simp add: iterdir_def new(1) comp_def)
qed

lemma collect_nothing: "iterdir fs d = [] \<Longrightarrow> collect_all_results fs d = []"
  by (simp add: collect_all_results_def collect_loop_def scene_case_dirs_def)

lemma save_outputs_ending:
  "fst (save_outputs fs a out scene_stats overall_stats md) = Completed
   \<or> (\<exists>e. fst (save_outputs fs a out scene_stats overall_stats md) = Uncaught e)"
  by (simp add: save_outputs_def split: sum.splits)

lemma main_created_results_dir:
  assumes "wf_fs fs" "output_dir a = None" "node_at fs (results_dir a) = None"
  shows "case mkdir_parents fs (results_dir a) of
           Inl e \<Rightarrow> main fs a = (Uncaught e, fs)
         | Inr fs1 \<Rightarrow> main fs a = (NoResultsFound, fs1) \<and> is_dir fs1 (results_dir a)"
proof (cases "mkdir_parents fs (results_dir a)")
  case (Inl e)
  then show ?thesis using assms(2) by (simp add: main_def)
next
  case (Inr fs1)
  have d: "is_dir fs1 (results_dir a)" by (rule mkdir_parents_is_dir[OF Inr])
  have c: "collect_all_results fs1 (results_dir a) = []"
    by (rule collect_nothing[OF iterdir_created[OF assms(1,3) Inr]])
  show ?thesis using Inr assms(2) d c by (simp add: main_def)
qed

lemma main_not_found_needs_output_dir:
  assumes "fst (main fs a) = ResultsDirNotFound"
  shows "output_dir a \<noteq> None"
proof
  assume n: "output_dir a = None"
  show False
  proof (cases "mkdir_parents fs (results_dir a)")
    case (Inl e)
    then show ?thesis using assms n by (simp add: main_def)
  next
    case (Inr fs1)
    have d: "is_dir fs1 (results_dir a)" by (rule mkdir_parents_is_dir[OF Inr])
    show ?thesis
    proof (cases "collect_all_results fs1 (results_dir a) = []")
      case True
      then show ?thesis using assms n Inr d by (simp add: main_def)
    next
      case False
      show ?thesis
      proof (cases "per_scene [] (collect_all_results fs1 (results_dir a))")
        case (Inl e)
        then show ?thesis using assms n Inr d False by (simp add: main_def Let_def)
      next
        case (Inr scene_stats)
        then have "fst (main fs a) =
          fst (save_outputs fs1 a (results_dir a) scene_stats
                 (compute_overall_statistics scene_stats)
                 (metadata (results_dir a) (collect_all_results fs1 (results_dir a))))"
          using n \<open>mkdir_parents fs (results_dir a) = Inr fs1\<close> d False
          by (simp add: main_def Let_def)
        then show ?thesis
          using assms save_outputs_ending[of fs1 a "results_dir a" scene_stats
              "compute_overall_statistics scene_stats"
              "metadata (results_dir a) (collect_all_results fs1 (results_dir a))"]
          by auto
      qed
    qed
  qed
qed

text \<open>
  The creation succeeds unless a file stands at the path or at one of its ancestors.
\<close>

lemma mkdir_parents_succeeds:
  "\<forall>k\<le>length p. \<forall>c. node_at fs (take k p) \<noteq> Some (File c) \<Longrightarrow>
   \<exists>fs1. mkdir_parents fs p = Inr fs1"
proof (induction fs p rule: mkdir_parents.induct)
  case (1 fs p)
  note nf = "1.prems"
  have np: "node_at fs p \<noteq> Some (File c)" for c
    using nf[rule_format, of "length p" c] by simp
  show ?case
  proof (cases "node_at fs p")
    case (Some n)
    then have n: "n = Dir" using np by (cases n) auto
    have "os_mkdir fs p = Inl FileExistsError" using Some by (simp add: os_mkdir_def)
    then have "mkdir_parents fs p = Inr fs" using Some n
      by (subst mkdir_parents.simps) (simp add: is_dir_def)
    then show ?thesis by blast
  next
    case None
    then have pne: "p \<noteq> []" by (auto simp: node_at_def)
    have nb: "node_at fs (butlast p) \<noteq> Some (File c)" for c
      using nf[rule_format, of "length p - 1" c] by (simp add: butlast_conv_take)
    show ?thesis
    proof (cases "node_at fs (butlast p)")
      case d: (Some n)
      then have "n = Dir" using nb by (cases n) auto
      then have "os_mkdir fs p = Inr (fs @ [(p, Dir)])" using None d by (simp add: os_mkdir_def)
      then have "mkdir_parents fs p = Inr (fs @ [(p, Dir)])"
        by (subst mkdir_parents.simps) simp
      then show ?thesis by blast
    next
      case b: None
      have o: "os_mkdir fs p = Inl FileNotFoundError" using None b by (simp add: os_mkdir_def)
      have "\<forall>k\<le>length (butlast p). \<forall>c. node_at fs (take k (butlast p)) \<noteq> Some (File c)"
      proof (intro allI impI)
        fix k c assume k: "k \<le> length (butlast p)"
        have "k \<le> length p - 1" using k by (simp only: length_butlast)
        moreover have "length p \<noteq> 0" using pne by simp
        ultimately have kl: "k < length p" by arith
        then have "take k (butlast p) = take k p" by (rule take_butlast)
        moreover have "k \<le> length p" using kl by simp
        ultimately show "node_at fs (take k (butlast p)) \<noteq> Some (File c)"
          using nf by simp
      qed
      from "1.IH"[OF o refl pne this] obtain y where y: "mkdir_parents fs (butlast p) = Inr y"
        by blast
      have dy: "is_dir y (butlast p)" by (rule mkdir_parents_is_dir[OF y])
      from mkdir_parents_new[OF y] obtain new where
        new: "y = fs @ map (\<lambda>q. (q, Dir)) new" "\<forall>q\<in>set new. length q \<le> length (butlast p)"
        by blast
      have "p \<notin> set new"
      proof
        assume "p \<in> set new"
        then have "length p \<le> length (butlast p)" using new(2) by blast
        then have "length p \<le> length p - 1" by (simp only: length_butlast)
        moreover have "length p \<noteq> 0" using pne by simp
        ultimately show False by arith
      qed
      then have "map_of (map (\<lambda>q. (q, Dir)) new) p = None"
        by (simp add: map_of_eq_None_iff image_image)
      moreover have "map_of fs p = None" using None pne by (simp add: node_at_def)
      ultimately have "node_at y p = None" using pne by (simp add: new(1) node_at_append)
      then have "os_mkdir y p = Inr (y @ [(p, Dir)])"
        using dy by (simp add: os_mkdir_def is_dir_def)
      then have "mkdir_parents fs p = Inr (y @ [(p, Dir)])"
        using o y pne by (subst mkdir_parents.simps) simp
      then show ?thesis by blast
    qed
  qed
qed

subsection \<open>The ways \<open>main\<close> ends\<close>

lemma mkdir_parents_root: "mkdir_parents fs [] = Inr fs"
  by (simp add: mkdir_parents.simps os_mkdir_def node_at_def is_dir_def)

lemma main_cases:
  assumes "\<forall>e. fst (main fs a) \<noteq> Uncaught e"
  shows "\<exists>fs1. mkdir_parents fs (output_path a) = Inr fs1
      \<and> (if \<not> is_dir fs1 (results_dir a) then main fs a = (ResultsDirNotFound, fs1)
          else if collect_all_results fs1 (results_dir a) = [] then main fs a = (NoResultsFound, fs1)
          else fst (main fs a) = Completed)"
proof (cases "mkdir_parents fs (output_path a)")
  case (Inl e)
  then have "fst (main fs a) = Uncaught e" by (simp add: main_def output_path_def)
  then show ?thesis using assms by simp
next
  case (Inr fs1)
  show ?thesis
  proof (cases "is_dir fs1 (results_dir a)")
    case False
    then show ?thesis using Inr by (simp add: main_def output_path_def)
  next
    case True
    show ?thesis
    proof (cases "collect_all_results fs1 (results_dir a) = []")
      case True
      then show ?thesis using Inr \<open>is_dir fs1 (results_dir a)\<close>
        by (simp add: main_def output_path_def)
    next
      case False
      show ?thesis
      proof (cases "per_scene [] (collect_all_results fs1 (results_dir a))")
        case (Inl e)
        then have "fst (main fs a) = Uncaught e"
          using \<open>mkdir_parents fs (output_path a) = Inr fs1\<close> True False
          by (simp add: main_def output_path_def Let_def)
        then show ?thesis using assms by simp
      next
        case (Inr scene_stats)
        then have "fst (main fs a) =
          fst (save_outputs fs1 a (output_path a) scene_stats
                 (compute_overall_statistics scene_stats)
                 (metadata (results_dir a) (collect_all_results fs1 (results_dir a))))"
          using \<open>mkdir_parents fs (output_path a) = Inr fs1\<close> True False
          by (simp add: main_def output_path_def Let_def)
        then have "fst (main fs a) = Completed"
          using assms save_outputs_ending[of fs1 a "output_path a" scene_stats
              "compute_overall_statistics scene_stats"
              "metadata (results_dir a) (collect_all_results fs1 (results_dir a))"]
          by auto
        then show ?thesis
          using \<open>mkdir_parents fs (output_path a) = Inr fs1\<close> True False by simp
      qed
    qed
  qed
qed

lemma node_at_update:
  "p \<noteq> [] \<Longrightarrow> node_at (AList.update p n fs) q = (if q = p then Some n else node_at fs q)"
  by (simp add: node_at_def AList.update_conv')

lemma is_dir_root: "is_dir fs []"
  by (simp add: is_dir_def node_at_def)

lemma write_file_ok:
  "node_at fs p \<noteq> Some Dir \<Longrightarrow> is_dir fs (butlast p) \<Longrightarrow>
   write_file fs p c = Inr (AList.update p (File c) fs)"
  by (auto simp: write_file_def is_dir_def split: option.splits node.splits)

lemma scenario_c_completes: "fst (main fs_scenario_c default_args) = Completed"
proof -
  have c: "collect_all_results fs_scenario_c [] =
       [(''sceneA'', [(0, JObj [(''ours_7000'', JObj [(''PSNR'', JFloat 20)])])])]"
    by (simp add: fs_scenario_c_def fs_defs int_defs)
  have p: "per_scene [] [(''sceneA'', [(0, JObj [(''ours_7000'', JObj [(''PSNR'', JFloat 20)])])])] =
    Inr [(''sceneA'', [(''ours_7000'', [(''PSNR'',
              \<lparr>mean = 20, std = 0, min_stat = 20, max_stat = 20, count_stat = 1,
               values_stat = Some [JFloat 20]\<rparr>)])])]"
    by (simp add: eval_defs)
  have d: "is_dir fs_scenario_c []" by (simp add: is_dir_def node_at_def)
  have n: "node_at fs_scenario_c [''aggregate_results.json''] = None"
    "node_at fs_scenario_c [''aggregate_results.csv''] = None"
    by (simp_all add: node_at_def fs_scenario_c_def)
  have w1: "write_file fs_scenario_c [''aggregate_results.json''] c1 =
    Inr (AList.update [''aggregate_results.json''] (File c1) fs_scenario_c)" for c1
    by (rule write_file_ok) (simp_all add: n d)
  have w2: "write_file (AList.update [''aggregate_results.json''] (File c1) fs_scenario_c)
      [''aggregate_results.csv''] c2 =
    Inr (AList.update [''aggregate_results.csv''] (File c2)
          (AList.update [''aggregate_results.json''] (File c1) fs_scenario_c))" for c1 c2
    by (rule write_file_ok) (simp_all add: node_at_update n is_dir_root)
  have s: "fst (save_outputs fs_scenario_c default_args [] ss os md) = Completed" for ss os md
    by (simp add: save_outputs_def save_summary_json_def save_csv_def default_args_def w1 w2)
  show ?thesis
    using s by (simp add: main_def default_args_def mkdir_parents_root d c p del: per_scene.simps)
qed

lemma population_std_20_30: "population_std [20, 30] = 5"
  by (simp add: population_std_def sqrt_25)

lemma exit_code_after_parsing:
  assumes a: "\<forall>e. fst (main fs a) \<noteq> Uncaught e"
  shows "\<exists>fs1 new. mkdir_parents fs (output_path a) = Inr fs1
        \<and> fs1 = fs @ map (\<lambda>q. (q, Dir)) new
        \<and> (exit_code (fst (main fs a)) = 1 \<longleftrightarrow>
              \<not> is_dir fs1 (results_dir a) \<or> collect_all_results fs1 (results_dir a) = [])
        \<and> (exit_code (fst (main fs a)) = 0 \<longleftrightarrow>
              is_dir fs1 (results_dir a) \<and> collect_all_results fs1 (results_dir a) \<noteq> [])
        \<and> (is_dir fs1 (results_dir a) \<longrightarrow> collect_all_results fs1 (results_dir a) = [] \<longrightarrow>
              main fs a = (NoResultsFound, fs1))"
proof -
  from main_cases[OF a] obtain fs1 where
    m: "mkdir_parents fs (output_path a) = Inr fs1"
    and c: "if \<not> is_dir fs1 (results_dir a) then main fs a = (ResultsDirNotFound, fs1)
          else if collect_all_results fs1 (results_dir a) = [] then main fs a = (NoResultsFound, fs1)
          else fst (main fs a) = Completed"
    by blast
  from mkdir_parents_new[OF m] obtain new where n: "fs1 = fs @ map (\<lambda>q. (q, Dir)) new"
    by blast
  have r: "(exit_code (fst (main fs a)) = 1 \<longleftrightarrow>
              \<not> is_dir fs1 (results_dir a) \<or> collect_all_results fs1 (results_dir a) = [])
        \<and> (exit_code (fst (main fs a)) = 0 \<longleftrightarrow>
              is_dir fs1 (results_dir a) \<and> collect_all_results fs1 (results_dir a) \<noteq> [])
        \<and> (is_dir fs1 (results_dir a) \<longrightarrow> collect_all_results fs1 (results_dir a) = [] \<longrightarrow>
              main fs a = (NoResultsFound, fs1))"
  proof (cases "is_dir fs1 (results_dir a)")
    case False
    then have "main fs a = (ResultsDirNotFound, fs1)" using c by simp
    then show ?thesis using False by simp
  next
    case True
    show ?thesis
    proof (cases "collect_all_results fs1 (results_dir a) = []")
      case True
      then have "main fs a = (NoResultsFound, fs1)" using c \<open>is_dir fs1 (results_dir a)\<close> by simp
      then show ?thesis using True by simp
    next
      case False
      then have "fst (main fs a) = Completed" using c True by simp
      then show ?thesis using True False by simp
    qed
  qed
  show ?thesis
    by (intro exI[of _ fs1] exI[of _ new] conjI m n) (use r in blast)+
qed

lemma exit_code_le_1: "exit_code e \<le> 1"
  by (cases e) simp_all

subsection \<open>Enumeration order and a second run of \<open>main\<close>\<close>

lemma same_listing_append:
  assumes "same_listing fs' fs"
  shows "same_listing (fs' @ new) (fs @ new)"
proof -
  have "node_at (fs' @ new) q = node_at (fs @ new) q" for q
  proof (cases "q = []")
    case True then show ?thesis by (simp add: node_at_def)
  next
    case False
    have "node_at fs' q = node_at fs q" using assms by (simp add: same_listing_def)
    then have "map_of fs' q = map_of fs q" using False by (simp add: node_at_def)
    then show ?thesis by (simp add: node_at_def map_add_def)
  qed
  then show ?thesis using assms by (simp add: same_listing_def fun_eq_iff)
qed

lemma os_mkdir_same_listing:
  assumes "same_listing fs' fs"
  shows "rel_sum (=) same_listing (os_mkdir fs' p) (os_mkdir fs p)"
proof -
  have n: "node_at fs' = node_at fs" using assms by (simp add: same_listing_def)
  show ?thesis
    unfolding os_mkdir_def n
    by (auto split: option.splits node.splits intro: same_listing_append[OF assms])
qed

lemma is_dir_same_listing: "same_listing fs' fs \<Longrightarrow> is_dir fs' = is_dir fs"
  by (simp add: same_listing_def is_dir_def fun_eq_iff)

lemma mkdir_parents_same_listing:
  "same_listing fs' fs \<Longrightarrow> rel_sum (=) same_listing (mkdir_parents fs' p) (mkdir_parents fs p)"
proof (induction fs p arbitrary: fs' rule: mkdir_parents.induct)
  case (1 fs p)
  note s = "1.prems"
  have o: "rel_sum (=) same_listing (os_mkdir fs' p) (os_mkdir fs p)"
    by (rule os_mkdir_same_listing[OF s])
  show ?case
  proof (cases "os_mkdir fs p")
    case (Inr x)
    then obtain x' where x': "os_mkdir fs' p = Inr x'" "same_listing x' x"
      using o by (cases "os_mkdir fs' p") auto
    show ?thesis
      by (subst mkdir_parents.simps, subst (2) mkdir_parents.simps) (simp add: Inr x')
  next
    case (Inl e)
    then have e': "os_mkdir fs' p = Inl e"
      using o by (cases "os_mkdir fs' p") auto
    show ?thesis
    proof (cases "e = FileNotFoundError")
      case False
      then show ?thesis
        by (subst mkdir_parents.simps, subst (2) mkdir_parents.simps)
          (simp add: Inl e' is_dir_same_listing[OF s] s)
    next
      case True
      show ?thesis
      proof (cases "p = []")
        case True
        then show ?thesis using s by (simp add: mkdir_parents_root)
      next
        case False
        have ih: "rel_sum (=) same_listing (mkdir_parents fs' (butlast p)) (mkdir_parents fs (butlast p))"
          by (rule "1.IH"[OF Inl True False s])
        show ?thesis
        proof (cases "mkdir_parents fs (butlast p)")
          case (Inl e2)
          then have "mkdir_parents fs' (butlast p) = Inl e2"
            using ih by (cases "mkdir_parents fs' (butlast p)") auto
          then show ?thesis
            by (subst mkdir_parents.simps, subst (2) mkdir_parents.simps)
              (simp add: \<open>os_mkdir fs p = Inl e\<close> e' True False Inl)
        next
          case (Inr y)
          then obtain y' where y': "mkdir_parents fs' (butlast p) = Inr y'" "same_listing y' y"
            using ih by (cases "mkdir_parents fs' (butlast p)") auto
          have o2: "rel_sum (=) same_listing (os_mkdir y' p) (os_mkdir y p)"
            by (rule os_mkdir_same_listing[OF y'(2)])
          have r: "rel_sum (=) same_listing
            (case os_mkdir y' p of Inr fs'' \<Rightarrow> Inr fs''
             | Inl e' \<Rightarrow> if is_dir y' p then Inr y' else Inl e')
            (case os_mkdir y p of Inr fs'' \<Rightarrow> Inr fs''
             | Inl e' \<Rightarrow> if is_dir y p then Inr y else Inl e')"
            using o2 y'(2) is_dir_same_listing[OF y'(2)]
            by (cases "os_mkdir y' p"; cases "os_mkdir y p") auto
          show ?thesis
            by (subst mkdir_parents.simps, subst (2) mkdir_parents.simps)
              (simp add: \<open>os_mkdir fs p = Inl e\<close> e' True False Inr y'(1) r)
        qed
      qed
    qed
  qed
qed

lemma collect_all_results_same_listing:
  assumes "same_listing fs' fs"
  shows "collect_all_results fs' rd = collect_all_results fs rd"
proof -
  have n: "node_at fs' = node_at fs" and m: "mset fs' = mset fs"
    using assms by (simp_all add: same_listing_def)
  show ?thesis
    unfolding collect_all_results_def collect_loop_def
      collect_step_same_nodes[OF n] scene_case_dirs_permutation[OF n m] ..
qed

lemma write_file_same_nodes:
  assumes "node_at fs' = node_at fs" "p \<noteq> []"
  shows "rel_sum (=) (\<lambda>x' x. node_at x' = node_at x) (write_file fs' p c) (write_file fs p c)"
  unfolding write_file_def assms(1)
  by (auto split: option.splits node.splits simp: fun_eq_iff node_at_update[OF assms(2)] assms(1))

lemma save_outputs_same_nodes:
  assumes "node_at fs' = node_at fs"
  shows "fst (save_outputs fs' a out ss os md) = fst (save_outputs fs a out ss os md)
         \<and> node_at (snd (save_outputs fs' a out ss os md)) =
             node_at (snd (save_outputs fs a out ss os md))"
proof -
  let ?j' = "if FJson \<in> set (formats a)
            then save_summary_json fs' (out @ [''aggregate_results.json'']) ss os md else Inr fs'"
  let ?j = "if FJson \<in> set (formats a)
            then save_summary_json fs (out @ [''aggregate_results.json'']) ss os md else Inr fs"
  have j: "rel_sum (=) (\<lambda>x' x. node_at x' = node_at x) ?j' ?j"
    using write_file_same_nodes[OF assms, of "out @ [''aggregate_results.json'']"] assms
    by (simp add: save_summary_json_def)
  show ?thesis
  proof (cases ?j)
    case (Inl e)
    then have "?j' = Inl e" using j by (cases ?j') auto
    then show ?thesis using Inl assms by (simp add: save_outputs_def)
  next
    case (Inr x)
    then obtain x' where x': "?j' = Inr x'" "node_at x' = node_at x"
      using j by (cases ?j') auto
    let ?c' = "if FCsv \<in> set (formats a)
               then save_csv x' (out @ [''aggregate_results.csv'']) os else Inr x'"
    let ?c = "if FCsv \<in> set (formats a)
               then save_csv x (out @ [''aggregate_results.csv'']) os else Inr x"
    have c: "rel_sum (=) (\<lambda>x' x. node_at x' = node_at x) ?c' ?c"
      using write_file_same_nodes[OF x'(2), of "out @ [''aggregate_results.csv'']"] x'(2)
      by (simp add: save_csv_def)
    show ?thesis
    proof (cases ?c)
      case (Inl e)
      then have "?c' = Inl e" using c by (cases ?c') auto
      then show ?thesis using Inl Inr x' by (simp add: save_outputs_def)
    next
      case (Inr z)
      then obtain z' where z': "?c' = Inr z'" "node_at z' = node_at z"
        using c by (cases ?c') auto
      then show ?thesis using Inr \<open>?j = Inr x\<close> x' by (simp add: save_outputs_def)
    qed
  qed
qed

lemma main_same_listing:
  assumes "same_listing fs' fs"
  shows "fst (main fs' a) = fst (main fs a) \<and> node_at (snd (main fs' a)) = node_at (snd (main fs a))"
proof -
  have n: "node_at fs' = node_at fs" using assms by (simp add: same_listing_def)
  have m: "rel_sum (=) same_listing (mkdir_parents fs' (output_path a)) (mkdir_parents fs (output_path a))"
    by (rule mkdir_parents_same_listing[OF assms])
  show ?thesis
  proof (cases "mkdir_parents fs (output_path a)")
    case (Inl e)
    then have "mkdir_parents fs' (output_path a) = Inl e"
      using m by (cases "mkdir_parents fs' (output_path a)") auto
    then show ?thesis using Inl n by (simp add: main_def output_path_def)
  next
    case (Inr fs1)
    then obtain fs1' where f: "mkdir_parents fs' (output_path a) = Inr fs1'" "same_listing fs1' fs1"
      using m by (cases "mkdir_parents fs' (output_path a)") auto
    have n1: "node_at fs1' = node_at fs1" using f(2) by (simp add: same_listing_def)
    have d: "is_dir fs1' = is_dir fs1" by (rule is_dir_same_listing[OF f(2)])
    have c: "collect_all_results fs1' (results_dir a) = collect_all_results fs1 (results_dir a)"
      by (rule collect_all_results_same_listing[OF f(2)])
    show ?thesis
    proof (cases "is_dir fs1 (results_dir a)")
      case False
      then show ?thesis using Inr f(1) d n1 by (simp add: main_def output_path_def)
    next
      case True
      show ?thesis
      proof (cases "collect_all_results fs1 (results_dir a) = []")
        case True
        then show ?thesis using Inr f(1) d c n1 \<open>is_dir fs1 (results_dir a)\<close>
          by (simp add: main_def output_path_def)
      next
        case False
        show ?thesis
        proof (cases "per_scene [] (collect_all_results fs1 (results_dir a))")
          case (Inl e)
          then show ?thesis using Inr f(1) d c n1 True False
            by (simp add: main_def output_path_def Let_def)
        next
          case (Inr ss)
          have "main fs a = save_outputs fs1 a (output_path a) ss (compute_overall_statistics ss)
                 (metadata (results_dir a) (collect_all_results fs1 (results_dir a)))"
            using \<open>mkdir_parents fs (output_path a) = Inr fs1\<close> True False Inr
            by (simp add: main_def output_path_def Let_def)
          moreover have "main fs' a = save_outputs fs1' a (output_path a) ss (compute_overall_statistics ss)
                 (metadata (results_dir a) (collect_all_results fs1 (results_dir a)))"
            using f(1) d c True False Inr
            by (simp add: main_def output_path_def Let_def)
          ultimately show ?thesis using save_outputs_same_nodes[OF n1] by simp
        qed
      qed
    qed
  qed
qed

lemma mkdir_parents_existing: "is_dir fs p \<Longrightarrow> mkdir_parents fs p = Inr fs"
  by (subst mkdir_parents.simps) (simp add: os_mkdir_def is_dir_def)

lemma write_file_Inr:
  assumes "write_file fs p c = Inr fs'"
  shows "fs' = AList.update p (File c) fs" "node_at fs p \<noteq> Some Dir" "is_dir fs (butlast p)"
    "p \<noteq> []"
  using assms
  by (auto simp: write_file_def is_dir_def node_at_def split: option.splits node.splits if_splits)

lemma is_dir_update:
  assumes "p \<noteq> []" "node_at fs p \<noteq> Some Dir"
  shows "is_dir (AList.update p (File c) fs) q = is_dir fs q"
  using assms by (simp add: is_dir_def node_at_update)

lemma scene_case_dirs_update:
  assumes "p \<noteq> []" "node_at fs p \<noteq> Some Dir"
  shows "scene_case_dirs (AList.update p (File c) fs) rd = scene_case_dirs fs rd"
proof -
  let ?fs' = "AList.update p (File c) fs"
  have np: "\<not> is_dir fs p" using assms(2) by (simp add: is_dir_def)
  have "[d \<leftarrow> iterdir ?fs' rd. is_dir ?fs' d \<and> contains ''_case'' (last d)] =
        [d \<leftarrow> iterdir fs rd. is_dir fs d \<and> contains ''_case'' (last d)]"
    unfolding is_dir_update[OF assms] iterdir_def
    using np by (simp add: update_keys)
  then show ?thesis by (simp add: scene_case_dirs_def)
qed

lemma collect_step_local:
  assumes "node_at fs' (d @ [''results.json'']) = node_at fs (d @ [''results.json''])"
  shows "collect_step fs' st d = collect_step fs st d"
proof -
  have e: "exists_path fs' (d @ [''results.json'']) = exists_path fs (d @ [''results.json''])"
    by (simp add: exists_path_def assms)
  have l: "load_results_json fs' (d @ [''results.json'']) =
           load_results_json fs (d @ [''results.json''])"
    by (simp add: load_results_json_def assms)
  show ?thesis unfolding collect_step_def Let_def e l ..
qed

lemma foldl_collect_step_local:
  assumes "\<forall>d\<in>set ds. node_at fs' (d @ [''results.json'']) = node_at fs (d @ [''results.json''])"
  shows "foldl (collect_step fs') st ds = foldl (collect_step fs) st ds"
  using assms
proof (induction ds arbitrary: st)
  case Nil
  show ?case by simp
next
  case (Cons d ds)
  have "collect_step fs' st d = collect_step fs st d"
    using Cons.prems by (intro collect_step_local) simp
  moreover have "foldl (collect_step fs') (collect_step fs st d) ds =
                 foldl (collect_step fs) (collect_step fs st d) ds"
    using Cons.prems by (intro Cons.IH) simp
  ultimately show ?case by simp
qed

lemma collect_all_results_update:
  assumes "p \<noteq> []" "node_at fs p \<noteq> Some Dir" "last p \<noteq> ''results.json''"
  shows "collect_all_results (AList.update p (File c) fs) rd = collect_all_results fs rd"
proof -
  have n: "\<forall>d\<in>set ds. node_at (AList.update p (File c) fs) (d @ [''results.json'']) =
        node_at fs (d @ [''results.json''])" for ds
    using assms(3) by (auto simp: node_at_update[OF assms(1)])
  show ?thesis
    unfolding collect_all_results_def collect_loop_def scene_case_dirs_update[OF assms(1,2)]
      foldl_collect_step_local[OF n] ..
qed

lemma write_file_again:
  assumes "node_at fs p = Some (File c)" "is_dir fs (butlast p)"
  shows "write_file fs p c = Inr fs"
proof -
  have p: "p \<noteq> []" using assms(1) by (auto simp: node_at_def)
  then have "map_of fs p = Some (File c)" using assms(1) by (simp add: node_at_def)
  then have "AList.update p (File c) fs = fs" by (rule update_triv)
  then show ?thesis using write_file_ok[of fs p c] assms by simp
qed

text \<open>What writing an output file keeps.\<close>

lemma write_file_keeps:
  assumes "write_file fs p c = Inr fs'" "last p \<noteq> ''results.json''"
  shows "is_dir fs' = is_dir fs" "collect_all_results fs' rd = collect_all_results fs rd"
    "node_at fs' p = Some (File c)" "q \<noteq> p \<Longrightarrow> node_at fs' q = node_at fs q"
    "distinct (map fst fs) \<Longrightarrow> distinct (map fst fs')"
proof -
  note w = write_file_Inr[OF assms(1)]
  show "is_dir fs' = is_dir fs" by (simp add: fun_eq_iff w(1) is_dir_update[OF w(4) w(2)])
  show "collect_all_results fs' rd = collect_all_results fs rd"
    unfolding w(1) by (rule collect_all_results_update[OF w(4) w(2) assms(2)])
  show "node_at fs' p = Some (File c)" by (simp add: w(1) node_at_update[OF w(4)])
  show "q \<noteq> p \<Longrightarrow> node_at fs' q = node_at fs q" by (simp add: w(1) node_at_update[OF w(4)])
  show "distinct (map fst fs) \<Longrightarrow> distinct (map fst fs')" by (simp add: w(1) distinct_update)
qed

lemma main_completed:
  assumes "fst (main fs a) = Completed"
  shows "\<exists>fs1 ss. mkdir_parents fs (output_path a) = Inr fs1 \<and> is_dir fs1 (results_dir a)
     \<and> collect_all_results fs1 (results_dir a) \<noteq> []
     \<and> per_scene [] (collect_all_results fs1 (results_dir a)) = Inr ss
     \<and> main fs a = save_outputs fs1 a (output_path a) ss (compute_overall_statistics ss)
          (metadata (results_dir a) (collect_all_results fs1 (results_dir a)))"
proof (cases "mkdir_parents fs (output_path a)")
  case (Inl e)
  then have "fst (main fs a) = Uncaught e" by (simp add: main_def output_path_def)
  then show ?thesis using assms by simp
next
  case (Inr fs1)
  note m = Inr
  show ?thesis
  proof (cases "is_dir fs1 (results_dir a)")
    case False
    then have "fst (main fs a) = ResultsDirNotFound" using m by (simp add: main_def output_path_def)
    then show ?thesis using assms by simp
  next
    case True
    note d = True
    show ?thesis
    proof (cases "collect_all_results fs1 (results_dir a) = []")
      case True
      then have "fst (main fs a) = NoResultsFound" using m d
        by (simp add: main_def output_path_def)
      then show ?thesis using assms by simp
    next
      case False
      note c = False
      show ?thesis
      proof (cases "per_scene [] (collect_all_results fs1 (results_dir a))")
        case (Inl e)
        then have "fst (main fs a) = Uncaught e" using m d c
          by (simp add: main_def output_path_def Let_def)
        then show ?thesis using assms by simp
      next
        case (Inr ss)
        have "main fs a = save_outputs fs1 a (output_path a) ss (compute_overall_statistics ss)
          (metadata (results_dir a) (collect_all_results fs1 (results_dir a)))"
          using m d c Inr by (simp add: main_def output_path_def Let_def)
        then show ?thesis using m d c Inr by blast
      qed
    qed
  qed
qed

lemma main_unfold:
  assumes "mkdir_parents fs (output_path a) = Inr fs1" "is_dir fs1 (results_dir a)"
    "collect_all_results fs1 (results_dir a) = ar" "ar \<noteq> []" "per_scene [] ar = Inr ss"
  shows "main fs a = save_outputs fs1 a (output_path a) ss (compute_overall_statistics ss)
          (metadata (results_dir a) ar)"
  using assms by (simp add: main_def output_path_def Let_def)

lemma save_outputs_completed:
  assumes "save_outputs fs1 a out ss os md = (Completed, fs2)"
  shows "\<exists>fsj. (if FJson \<in> set (formats a)
               then write_file fs1 (out @ [''aggregate_results.json'']) (Doc (summary ss os md))
               else Inr fs1) = Inr fsj
           \<and> (if FCsv \<in> set (formats a)
               then write_file fsj (out @ [''aggregate_results.csv'']) (Csv (csv_rows os))
               else Inr fsj) = Inr fs2"
proof -
  let ?j = "if FJson \<in> set (formats a)
            then save_summary_json fs1 (out @ [''aggregate_results.json'']) ss os md
            else Inr fs1"
  show ?thesis
  proof (cases ?j)
    case (Inl e)
    then show ?thesis using assms unfolding save_outputs_def by simp
  next
    case (Inr fsj)
    let ?c = "if FCsv \<in> set (formats a)
              then save_csv fsj (out @ [''aggregate_results.csv'']) os
              else Inr fsj"
    show ?thesis
    proof (cases ?c)
      case (Inl e)
      then show ?thesis using assms Inr unfolding save_outputs_def by simp
    next
      case c: (Inr x)
      then have "x = fs2" using assms Inr unfolding save_outputs_def by simp
      then show ?thesis using Inr c unfolding save_summary_json_def save_csv_def by blast
    qed
  qed
qed

lemma save_outputs_keeps:
  assumes "save_outputs fs1 a out ss os md = (Completed, fs2)"
  shows "is_dir fs2 = is_dir fs1"
    "collect_all_results fs2 rd = collect_all_results fs1 rd"
    "FJson \<in> set (formats a) \<Longrightarrow>
       node_at fs2 (out @ [''aggregate_results.json'']) = Some (File (Doc (summary ss os md)))"
    "FCsv \<in> set (formats a) \<Longrightarrow>
       node_at fs2 (out @ [''aggregate_results.csv'']) = Some (File (Csv (csv_rows os)))"
proof -
  from save_outputs_completed[OF assms] obtain fsj where
    j: "(if FJson \<in> set (formats a)
               then write_file fs1 (out @ [''aggregate_results.json'']) (Doc (summary ss os md))
               else Inr fs1) = Inr fsj"
    and c: "(if FCsv \<in> set (formats a)
               then write_file fsj (out @ [''aggregate_results.csv'']) (Csv (csv_rows os))
               else Inr fsj) = Inr fs2"
    by blast
  have j1: "is_dir fsj = is_dir fs1" "collect_all_results fsj rd = collect_all_results fs1 rd"
    using j write_file_keeps(1,2)[of fs1 "out @ [''aggregate_results.json'']" _ fsj]
    by (auto split: if_splits)
  have c1: "is_dir fs2 = is_dir fsj" "collect_all_results fs2 rd = collect_all_results fsj rd"
    using c write_file_keeps(1,2)[of fsj "out @ [''aggregate_results.csv'']" _ fs2]
    by (auto split: if_splits)
  show "is_dir fs2 = is_dir fs1" using j1 c1 by simp
  show "collect_all_results fs2 rd = collect_all_results fs1 rd" using j1 c1 by simp
  show "node_at fs2 (out @ [''aggregate_results.csv'']) = Some (File (Csv (csv_rows os)))"
    if "FCsv \<in> set (formats a)"
    using c that write_file_keeps(3)[of fsj "out @ [''aggregate_results.csv'']" _ fs2] by simp
  show "node_at fs2 (out @ [''aggregate_results.json'']) = Some (File (Doc (summary ss os md)))"
    if f: "FJson \<in> set (formats a)"
  proof -
    have w: "write_file fs1 (out @ [''aggregate_results.json'']) (Doc (summary ss os md)) = Inr fsj"
      using j f by simp
    have nj: "node_at fsj (out @ [''aggregate_results.json'']) = Some (File (Doc (summary ss os md)))"
      using write_file_keeps(3)[OF w] by simp
    show ?thesis
    proof (cases "FCsv \<in> set (formats a)")
      case False
      then show ?thesis using c nj by simp
    next
      case True
      then have wc: "write_file fsj (out @ [''aggregate_results.csv'']) (Csv (csv_rows os)) = Inr fs2"
        using c by simp
      have "node_at fs2 (out @ [''aggregate_results.json'']) =
            node_at fsj (out @ [''aggregate_results.json''])"
        using write_file_keeps(4)[OF wc, of "out @ [''aggregate_results.json'']"] by simp
      then show ?thesis using nj by simp
    qed
  qed
qed

lemma save_outputs_again:
  assumes "save_outputs fs1 a out ss os md = (Completed, fs2)" "is_dir fs1 out"
  shows "save_outputs fs2 a out ss os md = (Completed, fs2)"
proof -
  note k = save_outputs_keeps[OF assms(1)]
  have d: "is_dir fs2 out" using k(1) assms(2) by simp
  have j: "(if FJson \<in> set (formats a)
            then save_summary_json fs2 (out @ [''aggregate_results.json'']) ss os md
            else Inr fs2) = Inr fs2"
    using k(3) d by (simp add: save_summary_json_def write_file_again)
  have c: "(if FCsv \<in> set (formats a)
            then save_csv fs2 (out @ [''aggregate_results.csv'']) os
            else Inr fs2) = Inr fs2"
    using k(4) d by (simp add: save_csv_def write_file_again)
  show ?thesis unfolding save_outputs_def j sum.case c ..
qed

lemma main_again:
  assumes "fst (main fs a) = Completed"
  shows "main (snd (main fs a)) a = (Completed, snd (main fs a))"
proof -
  from main_completed[OF assms] obtain fs1 ss where
    m: "mkdir_parents fs (output_path a) = Inr fs1"
    and d: "is_dir fs1 (results_dir a)"
    and c: "collect_all_results fs1 (results_dir a) \<noteq> []"
    and p: "per_scene [] (collect_all_results fs1 (results_dir a)) = Inr ss"
    and e: "main fs a = save_outputs fs1 a (output_path a) ss (compute_overall_statistics ss)
          (metadata (results_dir a) (collect_all_results fs1 (results_dir a)))"
    by blast
  define fs2 where "fs2 = snd (main fs a)"
  have s: "save_outputs fs1 a (output_path a) ss (compute_overall_statistics ss)
          (metadata (results_dir a) (collect_all_results fs1 (results_dir a))) = (Completed, fs2)"
    using assms e by (simp add: fs2_def prod_eq_iff)
  have o: "is_dir fs1 (output_path a)" by (rule mkdir_parents_is_dir[OF m])
  note k = save_outputs_keeps[OF s]
  have m2: "mkdir_parents fs2 (output_path a) = Inr fs2"
    using o k(1) by (simp add: mkdir_parents_existing)
  have d2: "is_dir fs2 (results_dir a)" using d k(1) by simp
  have "main fs2 a = save_outputs fs2 a (output_path a) ss (compute_overall_statistics ss)
          (metadata (results_dir a) (collect_all_results fs1 (results_dir a)))"
    by (rule main_unfold[OF m2 d2 k(2) c p])
  also have "\<dots> = (Completed, fs2)" by (rule save_outputs_again[OF s o])
  finally show ?thesis by (simp add: fs2_def)
qed

lemma main_json_output:
  assumes "fst (main fs a) = Completed" "FJson \<in> set (formats a)"
  shows "\<exists>fs1 ss. mkdir_parents fs (output_path a) = Inr fs1
     \<and> per_scene [] (collect_all_results fs1 (results_dir a)) = Inr ss
     \<and> node_at (snd (main fs a)) (output_path a @ [''aggregate_results.json'']) =
         Some (File (Doc (summary ss (compute_overall_statistics ss)
           (metadata (results_dir a) (collect_all_results fs1 (results_dir a))))))"
proof -
  from main_completed[OF assms(1)] obtain fs1 ss where
    m: "mkdir_parents fs (output_path a) = Inr fs1"
    and p: "per_scene [] (collect_all_results fs1 (results_dir a)) = Inr ss"
    and e: "main fs a = save_outputs fs1 a (output_path a) ss (compute_overall_statistics ss)
          (metadata (results_dir a) (collect_all_results fs1 (results_dir a)))"
    by blast
  have s: "save_outputs fs1 a (output_path a) ss (compute_overall_statistics ss)
          (metadata (results_dir a) (collect_all_results fs1 (results_dir a)))
           = (Completed, snd (main fs a))"
    using assms(1) e by (simp add: prod_eq_iff)
  show ?thesis using m p save_outputs_keeps(3)[OF s assms(2)] by blast
qed

lemma scenario_c_main_result: "main fs_scenario_c default_args =
     (Completed, AList.update [''aggregate_results.csv''] (File (Csv (csv_rows [(''ours_7000'', [(''PSNR'',
              \<lparr>mean = 20, std = 0, min_stat = 20, max_stat = 20, count_stat = 1,
               values_stat = None\<rparr>)])])))
          (AList.update [''aggregate_results.json''] (File (Doc (summary [(''sceneA'', [(''ours_7000'', [(''PSNR'',
              \<lparr>mean = 20, std = 0, min_stat = 20, max_stat = 20, count_stat = 1,
               values_stat = Some [JFloat 20]\<rparr>)])])]
     [(''ours_7000'', [(''PSNR'',
              \<lparr>mean = 20, std = 0, min_stat = 20, max_stat = 20, count_stat = 1,
               values_stat = None\<rparr>)])]
     (metadata [] [(''sceneA'', [(0, JObj [(''ours_7000'', JObj [(''PSNR'', JFloat 20)])])])])))) fs_scenario_c))"
proof -
  have c: "collect_all_results fs_scenario_c [] =
       [(''sceneA'', [(0, JObj [(''ours_7000'', JObj [(''PSNR'', JFloat 20)])])])]"
    by (simp add: fs_scenario_c_def fs_defs int_defs)
  have p: "per_scene [] [(''sceneA'', [(0, JObj [(''ours_7000'', JObj [(''PSNR'', JFloat 20)])])])] =
    Inr [(''sceneA'', [(''ours_7000'', [(''PSNR'',
              \<lparr>mean = 20, std = 0, min_stat = 20, max_stat = 20, count_stat = 1,
               values_stat = Some [JFloat 20]\<rparr>)])])]"
    by (simp add: eval_defs)
  have d: "is_dir fs_scenario_c []" by (simp add: is_dir_def node_at_def)
  have n: "node_at fs_scenario_c [''aggregate_results.json''] = None"
    "node_at fs_scenario_c [''aggregate_results.csv''] = None"
    by (simp_all add: node_at_def fs_scenario_c_def)
  have w1: "write_file fs_scenario_c [''aggregate_results.json''] c1 =
    Inr (AList.update [''aggregate_results.json''] (File c1) fs_scenario_c)" for c1
    by (rule write_file_ok) (simp_all add: n d)
  have w2: "write_file (AList.update [''aggregate_results.json''] (File c1) fs_scenario_c)
      [''aggregate_results.csv''] c2 =
    Inr (AList.update [''aggregate_results.csv''] (File c2)
          (AList.update [''aggregate_results.json''] (File c1) fs_scenario_c))" for c1 c2
    by (rule write_file_ok) (simp_all add: node_at_update n is_dir_root)
  have s: "save_outputs fs_scenario_c default_args [] ss os md =
     (Completed, AList.update [''aggregate_results.csv''] (File (Csv (csv_rows os)))
          (AList.update [''aggregate_results.json''] (File (Doc (summary ss os md))) fs_scenario_c))" for ss os md
    by (simp add: save_outputs_def save_summary_json_def save_csv_def default_args_def w1 w2)
  have o: "compute_overall_statistics [(''sceneA'', [(''ours_7000'', [(''PSNR'',
              \<lparr>mean = 20, std = 0, min_stat = 20, max_stat = 20, count_stat = 1,
               values_stat = Some [JFloat 20]\<rparr>)])])] = [(''ours_7000'', [(''PSNR'',
              \<lparr>mean = 20, std = 0, min_stat = 20, max_stat = 20, count_stat = 1,
               values_stat = None\<rparr>)])]"
    by (simp add: eval_defs)
  have r: "results_dir default_args = []" "output_path default_args = []"
    by (simp_all add: default_args_def output_path_def)
  have m: "main fs_scenario_c default_args = save_outputs fs_scenario_c default_args []
     [(''sceneA'', [(''ours_7000'', [(''PSNR'',
              \<lparr>mean = 20, std = 0, min_stat = 20, max_stat = 20, count_stat = 1,
               values_stat = Some [JFloat 20]\<rparr>)])])]
     [(''ours_7000'', [(''PSNR'',
              \<lparr>mean = 20, std = 0, min_stat = 20, max_stat = 20, count_stat = 1,
               values_stat = None\<rparr>)])]
     (metadata [] [(''sceneA'', [(0, JObj [(''ours_7000'', JObj [(''PSNR'', JFloat 20)])])])])"
    using main_unfold[of fs_scenario_c default_args fs_scenario_c, unfolded r,
        OF mkdir_parents_root d c _ p]
    unfolding o by simp
  show ?thesis unfolding m s ..
qed

lemma os_mkdir_distinct:
  assumes "os_mkdir fs p = Inr fs1" "distinct (map fst fs)"
  shows "distinct (map fst fs1)"
proof -
  from os_mkdir_Inr[OF assms(1)] have f: "fs1 = fs @ [(p, Dir)]" and n: "node_at fs p = None"
    by simp_all
  have "map_of fs p = None" using n by (simp add: node_at_def split: if_splits)
  then have "p \<notin> fst ` set fs" by (simp add: map_of_eq_None_iff)
  then show ?thesis using assms(2) by (simp add: f)
qed

lemma mkdir_parents_distinct:
  "mkdir_parents fs p = Inr fs1 \<Longrightarrow> distinct (map fst fs) \<Longrightarrow> distinct (map fst fs1)"
proof (induction fs p arbitrary: fs1 rule: mkdir_parents.induct)
  case (1 fs p)
  note r = "1.prems"(1) and d = "1.prems"(2)
  show ?case
  proof (cases "os_mkdir fs p")
    case (Inr x)
    then have "fs1 = x" using r by (subst (asm) mkdir_parents.simps) simp
    then show ?thesis using os_mkdir_distinct[OF Inr d] by simp
  next
    case (Inl e)
    show ?thesis
    proof (cases "e = FileNotFoundError")
      case False
      then have "fs1 = fs" using r Inl
        by (subst (asm) mkdir_parents.simps) (simp split: if_splits)
      then show ?thesis using d by simp
    next
      case True
      show ?thesis
      proof (cases "p = []")
        case True
        then have "fs1 = fs" using r by (simp add: mkdir_parents_root)
        then show ?thesis using d by simp
      next
        case False
        show ?thesis
        proof (cases "mkdir_parents fs (butlast p)")
          case i: (Inl e2)
          then show ?thesis using r Inl True False
            by (subst (asm) mkdir_parents.simps) simp
        next
          case y: (Inr y)
          have dy: "distinct (map fst y)" by (rule "1.IH"[OF Inl True False y d])
          have c: "(case os_mkdir y p of Inr fs'' \<Rightarrow> Inr fs''
                    | Inl e' \<Rightarrow> if is_dir y p then Inr y else Inl e') = Inr fs1"
            using r Inl True False y by (subst (asm) mkdir_parents.simps) simp
          show ?thesis
          proof (cases "os_mkdir y p")
            case (Inr z)
            then have "fs1 = z" using c by simp
            then show ?thesis using os_mkdir_distinct[OF Inr dy] by simp
          next
            case l: (Inl e3)
            then have "fs1 = y" using c by (simp split: if_splits)
            then show ?thesis using dy by simp
          qed
        qed
      qed
    qed
  qed
qed

lemma write_file_distinct:
  assumes "write_file fs p c = Inr fs'" "distinct (map fst fs)"
  shows "distinct (map fst fs')"
  using assms(2) by (simp add: write_file_Inr(1)[OF assms(1)] distinct_update)

lemma save_outputs_distinct:
  assumes "distinct (map fst fs)"
  shows "distinct (map fst (snd (save_outputs fs a out ss os md)))"
proof -
  let ?j = "if FJson \<in> set (formats a)
            then save_summary_json fs (out @ [''aggregate_results.json'']) ss os md
            else Inr fs"
  show ?thesis
  proof (cases ?j)
    case (Inl e)
    then show ?thesis using assms unfolding save_outputs_def by simp
  next
    case (Inr fsj)
    have dj: "distinct (map fst fsj)"
      using Inr assms write_file_distinct[of fs "out @ [''aggregate_results.json'']" _ fsj]
      by (auto simp: save_summary_json_def split: if_splits)
    let ?c = "if FCsv \<in> set (formats a)
              then save_csv fsj (out @ [''aggregate_results.csv'']) os
              else Inr fsj"
    show ?thesis
    proof (cases ?c)
      case (Inl e)
      then show ?thesis using Inr dj unfolding save_outputs_def by simp
    next
      case c: (Inr x)
      have "distinct (map fst x)"
        using c dj write_file_distinct[of fsj "out @ [''aggregate_results.csv'']" _ x]
        by (auto simp: save_csv_def split: if_splits)
      then show ?thesis using Inr c unfolding save_outputs_def by simp
    qed
  qed
qed

lemma main_distinct:
  assumes "distinct (map fst fs)"
  shows "distinct (map fst (snd (main fs a)))"
proof (cases "mkdir_parents fs (output_path a)")
  case (Inl e)
  then show ?thesis using assms by (simp add: main_def output_path_def)
next
  case (Inr fs1)
  note m = Inr
  have d1: "distinct (map fst fs1)" by (rule mkdir_parents_distinct[OF m assms])
  show ?thesis
  proof (cases "is_dir fs1 (results_dir a)")
    case False
    then show ?thesis using m d1 by (simp add: main_def output_path_def)
  next
    case True
    note d = True
    show ?thesis
    proof (cases "collect_all_results fs1 (results_dir a) = []")
      case True
      then show ?thesis using m d d1 by (simp add: main_def output_path_def)
    next
      case False
      note c = False
      show ?thesis
      proof (cases "per_scene [] (collect_all_results fs1 (results_dir a))")
        case (Inl e)
        then show ?thesis using m d c d1 by (simp add: main_def output_path_def Let_def)
      next
        case (Inr ss)
        show ?thesis
          unfolding main_unfold[OF m d refl c Inr] by (rule save_outputs_distinct[OF d1])
      qed
    qed
  qed
qed

lemma main_again_any_order:
  assumes "distinct (map fst fs)" "fst (main fs a) = Completed" "mset fs2 = mset (snd (main fs a))"
  shows "fst (main fs2 a) = Completed \<and> node_at (snd (main fs2 a)) = node_at (snd (main fs a))"
proof -
  have d: "distinct (map fst (snd (main fs a)))" by (rule main_distinct[OF assms(1)])
  have "same_listing fs2 (snd (main fs a))"
    unfolding same_listing_def using node_at_permutation[OF d assms(3)] assms(3) by simp
  from main_same_listing[OF this, of a] show ?thesis
    by (simp add: main_again[OF assms(2)] assms(2))
qed

lemma main_any_order:
  assumes "distinct (map fst fs)" "mset fs' = mset fs"
  shows "fst (main fs' a) = fst (main fs a) \<and> node_at (snd (main fs' a)) = node_at (snd (main fs a))"
proof -
  have "same_listing fs' fs"
    unfolding same_listing_def using node_at_permutation[OF assms] assms(2) by simp
  then show ?thesis by (rule main_same_listing)
qed

section \<open>The claims\<close>

text \<open>
  Claim C1. The overall count of a (checkpoint label, metric) pair is the number of scenes
  whose statistics hold the pair, and no overall entry exists where no scene holds it:
  each scene contributes its mean once, however many sub-units it has. In scenario B
  (two scenes of one sub-unit each, PSNR 20.0 and 30.0 under \<open>ours_7000\<close>), the overall
  entry of (\<open>ours_7000\<close>, PSNR) has mean 25, std 5 and count 2.
\<close>

theorem overall_count_is_number_of_groups:
  "(list_all (\<lambda>kv. wf_lists (snd kv)) all_scene_stats \<longrightarrow>
      (case lookup2 (compute_overall_statistics all_scene_stats) it m of
         Some b \<Rightarrow>
           count_stat b =
             length (filter (\<lambda>(scene_name, st). lookup2 st it m \<noteq> None) all_scene_stats)
       | None \<Rightarrow> filter (\<lambda>(scene_name, st). lookup2 st it m \<noteq> None) all_scene_stats = []))
   \<and> map_sum id compute_overall_statistics (per_scene [] scenario_b) =
       Inr [(''ours_7000'', [(''PSNR'',
          \<lparr>mean = 25, std = 5, min_stat = 20, max_stat = 30, count_stat = 2,
           values_stat = None\<rparr>)])]"
proof (intro conjI impI)
  assume wf: "list_all (\<lambda>kv. wf_lists (snd kv)) all_scene_stats"
  let ?f = "\<lambda>(scene_name, scene_stats). map_option mean (lookup2 scene_stats it m)"
  have eq: "(\<lambda>x. ?f x \<noteq> None) = (\<lambda>(scene_name, st). lookup2 st it m \<noteq> None)"
    by (auto simp: fun_eq_iff)
  have len: "length (group_means all_scene_stats it m) =
    length (filter (\<lambda>(scene_name, st). lookup2 st it m \<noteq> None) all_scene_stats)"
    unfolding group_means_def length_map_filter eq ..
  show "case lookup2 (compute_overall_statistics all_scene_stats) it m of
         Some b \<Rightarrow>
           count_stat b =
             length (filter (\<lambda>(scene_name, st). lookup2 st it m \<noteq> None) all_scene_stats)
       | None \<Rightarrow> filter (\<lambda>(scene_name, st). lookup2 st it m \<noteq> None) all_scene_stats = []"
  proof (cases "group_means all_scene_stats it m = []")
    case True
    then show ?thesis using len by (simp add: compute_overall_statistics_lookup[OF wf])
  next
    case False
    then show ?thesis using len
      by (simp add: compute_overall_statistics_lookup[OF wf] overall_block_def)
  qed
next
  show "map_sum id compute_overall_statistics (per_scene [] scenario_b) =
       Inr [(''ours_7000'', [(''PSNR'',
          \<lparr>mean = 25, std = 5, min_stat = 20, max_stat = 30, count_stat = 2,
           values_stat = None\<rparr>)])]"
    by (rule scenario_b_overall)
qed

theorem overall_count_is_number_of_groups_witness:
  "list_all (\<lambda>kv. wf_lists (snd kv)) scenario_b_stats_value
   \<and> per_scene [] scenario_b = Inr scenario_b_stats_value
   \<and> length (filter (\<lambda>(scene_name, st). lookup2 st ''ours_7000'' ''PSNR'' \<noteq> None)
        scenario_b_stats_value) = 2
   \<and> map_option count_stat
        (lookup2 (compute_overall_statistics scenario_b_stats_value) ''ours_7000'' ''PSNR'') = Some 2"
  using overall_count_is_number_of_groups[of scenario_b_stats_value "''ours_7000''" "''PSNR''"]
    scenario_b_stats
  by (auto simp: scenario_b_stats_value_def wf_lists_def lookup2_def split: option.splits)



text \<open>
  Claim C3. The \<open>std\<close> of every entry of both results is the population standard deviation
  (divisor: the number of values) of the values that contribute to the entry, which are
  as many as its count; and both functions produce such an entry for every pair that has
  a contributing value: the \<open>std\<close> read at a pair is that population standard deviation if
  a value contributes, and there is no entry otherwise. In scenario A (one scene,
  sub-units reporting PSNR 20.0 and 22.0 under \<open>ours_7000\<close>) the entry of
  (\<open>ours_7000\<close>, PSNR) has mean 21, std 1, min 20, max 22 and count 2; in scenario B
  (two scenes of one sub-unit each, PSNR 20.0 and 30.0) the overall entry has std 5.
\<close>

theorem std_is_population_std:
  "(list_all (\<lambda>kv. wf_json (snd kv)) scene_results \<longrightarrow>
      compute_scene_statistics scene_results = Inr st \<longrightarrow> lookup2 st it m = Some b \<longrightarrow>
      std b = population_std (map to_real (contributions scene_results it m))
      \<and> count_stat b = length (contributions scene_results it m))
   \<and> (list_all (\<lambda>kv. wf_lists (snd kv)) all_scene_stats \<longrightarrow>
      lookup2 (compute_overall_statistics all_scene_stats) it m = Some b' \<longrightarrow>
      std b' = population_std (group_means all_scene_stats it m)
      \<and> count_stat b' = length (group_means all_scene_stats it m))
   \<and> (list_all (\<lambda>kv. wf_json (snd kv)) scene_results \<longrightarrow>
      compute_scene_statistics scene_results = Inr st \<longrightarrow>
      map_option std (lookup2 st it m) =
        (if contributions scene_results it m = [] then None
         else Some (population_std (map to_real (contributions scene_results it m)))))
   \<and> (list_all (\<lambda>kv. wf_lists (snd kv)) all_scene_stats \<longrightarrow>
      map_option std (lookup2 (compute_overall_statistics all_scene_stats) it m) =
        (if group_means all_scene_stats it m = [] then None
         else Some (population_std (group_means all_scene_stats it m))))
   \<and> compute_scene_statistics scenario_a =
       Inr [(''ours_7000'', [(''PSNR'',
          \<lparr>mean = 21, std = 1, min_stat = 20, max_stat = 22, count_stat = 2,
           values_stat = Some [JFloat 20, JFloat 22]\<rparr>)])]
   \<and> map_sum id compute_overall_statistics (per_scene [] scenario_b) =
       Inr [(''ours_7000'', [(''PSNR'',
          \<lparr>mean = 25, std = 5, min_stat = 20, max_stat = 30, count_stat = 2,
           values_stat = None\<rparr>)])]"
proof (intro conjI impI)
  assume a: "list_all (\<lambda>kv. wf_json (snd kv)) scene_results"
    "compute_scene_statistics scene_results = Inr st" "lookup2 st it m = Some b"
  have b: "b = scene_block (contributions scene_results it m)"
    using compute_scene_statistics_lookup[OF a(1,2), of it m] a(3) by (simp split: if_splits)
  show "std b = population_std (map to_real (contributions scene_results it m))"
    by (simp add: b scene_block_def Let_def np_std_population)
  show "count_stat b = length (contributions scene_results it m)"
    by (simp add: b scene_block_def Let_def)
next
  assume a: "list_all (\<lambda>kv. wf_lists (snd kv)) all_scene_stats"
    "lookup2 (compute_overall_statistics all_scene_stats) it m = Some b'"
  have b: "b' = overall_block (group_means all_scene_stats it m)"
    using compute_overall_statistics_lookup[OF a(1), of it m] a(2) by (simp split: if_splits)
  show "std b' = population_std (group_means all_scene_stats it m)"
    by (simp add: b overall_block_def np_std_population)
  show "count_stat b' = length (group_means all_scene_stats it m)"
    by (simp add: b overall_block_def)
next
  assume a: "list_all (\<lambda>kv. wf_json (snd kv)) scene_results"
    "compute_scene_statistics scene_results = Inr st"
  show "map_option std (lookup2 st it m) =
        (if contributions scene_results it m = [] then None
         else Some (population_std (map to_real (contributions scene_results it m))))"
    by (simp add: compute_scene_statistics_lookup[OF a] scene_block_def Let_def
        np_std_population)
next
  assume a: "list_all (\<lambda>kv. wf_lists (snd kv)) all_scene_stats"
  show "map_option std (lookup2 (compute_overall_statistics all_scene_stats) it m) =
        (if group_means all_scene_stats it m = [] then None
         else Some (population_std (group_means all_scene_stats it m)))"
    by (simp add: compute_overall_statistics_lookup[OF a] overall_block_def np_std_population)
next
  show "compute_scene_statistics scenario_a =
       Inr [(''ours_7000'', [(''PSNR'',
          \<lparr>mean = 21, std = 1, min_stat = 20, max_stat = 22, count_stat = 2,
           values_stat = Some [JFloat 20, JFloat 22]\<rparr>)])]"
    by (rule scenario_a_stats)
next
  show "map_sum id compute_overall_statistics (per_scene [] scenario_b) =
       Inr [(''ours_7000'', [(''PSNR'',
          \<lparr>mean = 25, std = 5, min_stat = 20, max_stat = 30, count_stat = 2,
           values_stat = None\<rparr>)])]"
    by (rule scenario_b_overall)
qed

theorem std_is_population_std_witness:
  "list_all (\<lambda>kv. wf_json (snd kv)) scenario_a
   \<and> contributions scenario_a ''ours_7000'' ''PSNR'' = [JFloat 20, JFloat 22]
   \<and> population_std [20, 22] = 1
   \<and> map_option std
       (case compute_scene_statistics scenario_a of
          Inr st \<Rightarrow> lookup2 st ''ours_7000'' ''PSNR'' | Inl e \<Rightarrow> None) = Some 1
   \<and> per_scene [] scenario_b = Inr scenario_b_stats_value
   \<and> list_all (\<lambda>kv. wf_lists (snd kv)) scenario_b_stats_value
   \<and> group_means scenario_b_stats_value ''ours_7000'' ''PSNR'' = [20, 30]
   \<and> population_std [20, 30] = 5
   \<and> lookup2 (compute_overall_statistics scenario_b_stats_value) ''ours_7000'' ''PSNR'' =
       Some \<lparr>mean = 25, std = 5, min_stat = 20, max_stat = 30, count_stat = 2,
             values_stat = None\<rparr>
   \<and> map_option std
       (lookup2 (compute_overall_statistics scenario_b_stats_value) ''ours_7000'' ''PSNR'') = Some 5"
proof -
  have g: "group_means scenario_b_stats_value ''ours_7000'' ''PSNR'' = [20, 30]"
    by (simp add: group_means_def scenario_b_stats_value_def List.map_filter_simps lookup2_def)
  have w: "list_all (\<lambda>kv. wf_lists (snd kv)) scenario_b_stats_value"
    by (simp add: scenario_b_stats_value_def wf_lists_def)
  have p: "per_scene [] scenario_b = Inr scenario_b_stats_value"
    by (simp add: scenario_b_stats scenario_b_stats_value_def)
  have o: "lookup2 (compute_overall_statistics scenario_b_stats_value) ''ours_7000'' ''PSNR'' =
       Some \<lparr>mean = 25, std = 5, min_stat = 20, max_stat = 30, count_stat = 2,
             values_stat = None\<rparr>"
    using scenario_b_overall by (simp add: p lookup2_def)
  show ?thesis
    using std_is_population_std[where scene_results = scenario_a and it = "''ours_7000''"
        and m = "''PSNR''" and all_scene_stats = scenario_b_stats_value]
      scenario_a_stats
    by (simp add: g w p o population_std_20_30)
      (simp add: scenario_a_def contributions_def reported_def List.map_filter_simps lookup2_def
        population_std_def)
qed

text \<open>
  Claim C4, as stated, fails: the suffix \<open>-1\<close> is not a non-negative integer, yet \<open>int\<close>
  accepts it, and the directory \<open>sceneA_case-1\<close> is collected as sub-unit \<open>-1\<close> of
  \<open>sceneA\<close>.
\<close>

theorem negative_suffix_is_accepted:
  "extract_scene_and_case ''sceneA_case-1'' = Some (''sceneA'', - 1)
   \<and> collect_all_results fs_negative [] =
       [(''sceneA'', [(- 1, JObj [(''ours_7000'', JObj [(''PSNR'', JFloat 20)])])])]"
  by (simp add: fs_negative_def fs_defs int_defs)

text \<open>
  Claim C4, amended. Let a name be \<open>l_caser\<close>, where \<open>l\<close> does not contain the delimiter
  \<open>_case\<close>. If \<open>r\<close> does not contain it either, the group key is \<open>l\<close> verbatim, and the
  directory is recognised exactly when \<open>int\<close> accepts \<open>r\<close> (white space around, one sign,
  digits with single underscores between them), with that integer, negative or not, as
  sub-unit id. If \<open>r\<close> contains the delimiter again, the directory is not recognised. A
  directory that is not recognised leaves the loop of the locator as if it were not
  listed; \<open>sceneB_caseX\<close> is such a directory.
\<close>

theorem locator_accepts_python_integers:
  "(\<not> contains ''_case'' l \<longrightarrow> \<not> contains ''_case'' r \<longrightarrow>
      extract_scene_and_case (l @ ''_case'' @ r) = map_option (Pair l) (py_int r))
   \<and> (\<not> contains ''_case'' l \<longrightarrow> contains ''_case'' r \<longrightarrow>
      extract_scene_and_case (l @ ''_case'' @ r) = None)
   \<and> (extract_scene_and_case (last d) = None \<longrightarrow>
      collect_loop fs (xs @ d # ys) = collect_loop fs (xs @ ys))
   \<and> extract_scene_and_case ''sceneB_caseX'' = None"
proof (intro conjI impI)
  assume "\<not> contains ''_case'' l" "\<not> contains ''_case'' r"
  then show "extract_scene_and_case (l @ ''_case'' @ r) = map_option (Pair l) (py_int r)"
    by (rule extract_one_delimiter)
next
  assume "\<not> contains ''_case'' l" "contains ''_case'' r"
  then show "extract_scene_and_case (l @ ''_case'' @ r) = None"
    by (rule extract_more_delimiters)
next
  assume "extract_scene_and_case (last d) = None"
  then show "collect_loop fs (xs @ d # ys) = collect_loop fs (xs @ ys)"
    by (rule collect_loop_skip)
next
  show "extract_scene_and_case ''sceneB_caseX'' = None"
    by (simp add: int_defs)
qed

theorem locator_accepts_python_integers_witness:
  "\<not> contains ''_case'' ''sceneA'' \<and> \<not> contains ''_case'' ''12''
   \<and> extract_scene_and_case ''sceneA_case12'' = Some (''sceneA'', 12)
   \<and> contains ''_case'' ''1_case2''
   \<and> extract_scene_and_case ''sceneA_case1_case2'' = None
   \<and> extract_scene_and_case (last [''sceneB_caseX'']) = None
   \<and> collect_loop fs_scenario_c ([] @ [''sceneB_caseX''] # [[''sceneA_case0'']]) =
       collect_loop fs_scenario_c [[''sceneA_case0'']]
   \<and> collect_all_results fs_scenario_c [] =
       [(''sceneA'', [(0, JObj [(''ours_7000'', JObj [(''PSNR'', JFloat 20)])])])]
   \<and> metadata [] (collect_all_results fs_scenario_c []) =
       JObj [(''results_directory'', JStr []), (''num_scenes'', JInt 1), (''num_cases'', JInt 1),
             (''scene_list'', JArr [JStr ''sceneA'']),
             (''note'', JStr ''Vanilla Gaussian Splatting - RGB metrics only (PSNR, SSIM, LPIPS)'')]"
proof -
  have c: "collect_all_results fs_scenario_c [] =
       [(''sceneA'', [(0, JObj [(''ours_7000'', JObj [(''PSNR'', JFloat 20)])])])]"
    by (simp add: fs_scenario_c_def fs_defs int_defs)
  show ?thesis
    using locator_accepts_python_integers[of "''sceneA''" "''12''" "[''sceneB_caseX'']"
        fs_scenario_c "[]" "[[''sceneA_case0'']]"]
      locator_accepts_python_integers[of "''sceneA''" "''1_case2''" "[''sceneB_caseX'']"
        fs_scenario_c "[]" "[[''sceneA_case0'']]"]
    by (simp add: c metadata_def path_str_def starts_with_def py_int_def strip_def
        py_isspace_def py_digits_def is_digit_def digits_value_def digit_val_def)
qed

text \<open>
  Claim C7: the code includes a value that is no number. For the sub-unit
  \<open>{"ours_7000": {"PSNR": true}}\<close> the test \<open>isinstance(value, (int, float))\<close> holds,
  since \<open>bool\<close> is a subclass of \<open>int\<close>, and the boolean enters the statistics as 1.
\<close>

theorem boolean_value_is_counted:
  "compute_scene_statistics [(0, JObj [(''ours_7000'', JObj [(''PSNR'', JBool True)])])] =
     Inr [(''ours_7000'', [(''PSNR'',
        \<lparr>mean = 1, std = 0, min_stat = 1, max_stat = 1, count_stat = 1,
         values_stat = Some [JBool True]\<rparr>)])]"
  by (simp add: eval_defs)

text \<open>
  Claim C8. When two recognised directories name the same (group key, sub-unit id), both
  with a loaded \<open>results.json\<close>, and no directory after the second one stores a value
  under that pair, the collection holds the value of the second: the later one overwrites
  the earlier. The loop has no failing branch, so no error is raised.
\<close>

theorem last_write_wins:
  "extract_scene_and_case (last d1) = Some (g, i) \<longrightarrow> parsed fs d1 = Some r1 \<longrightarrow>
   extract_scene_and_case (last d2) = Some (g, i) \<longrightarrow> parsed fs d2 = Some r2 \<longrightarrow>
   (\<forall>d\<in>set zs. extract_scene_and_case (last d) = Some (g, i) \<longrightarrow> parsed fs d = None) \<longrightarrow>
   lookup2 (fst (collect_loop fs (xs @ d1 # ys @ d2 # zs))) g i = Some r2"
proof (intro impI)
  assume a: "extract_scene_and_case (last d2) = Some (g, i)" "parsed fs d2 = Some r2"
    "\<forall>d\<in>set zs. extract_scene_and_case (last d) = Some (g, i) \<longrightarrow> parsed fs d = None"
  have "collect_loop fs (xs @ d1 # ys @ d2 # zs) =
    foldl (collect_step fs) (collect_step fs (collect_loop fs (xs @ d1 # ys)) d2) zs"
    by (simp add: collect_loop_def)
  then show "lookup2 (fst (collect_loop fs (xs @ d1 # ys @ d2 # zs))) g i = Some r2"
    using a by (simp add: lookup2_collect_later lookup2_collect_step)
qed

theorem last_write_wins_witness:
  "scene_case_dirs fs_duplicate [] = [[''a_case01''], [''a_case1'']]
   \<and> extract_scene_and_case (last [''a_case01'']) = Some (''a'', 1)
   \<and> parsed fs_duplicate [''a_case01''] = Some (JObj [(''ours_7000'', JObj [(''PSNR'', JFloat 20)])])
   \<and> extract_scene_and_case (last [''a_case1'']) = Some (''a'', 1)
   \<and> parsed fs_duplicate [''a_case1''] = Some (JObj [(''ours_7000'', JObj [(''PSNR'', JFloat 30)])])
   \<and> lookup2 (collect_all_results fs_duplicate []) ''a'' 1 =
       Some (JObj [(''ours_7000'', JObj [(''PSNR'', JFloat 30)])])"
proof -
  have d: "scene_case_dirs fs_duplicate [] = [[''a_case01''], [''a_case1'']]"
    by (simp add: fs_duplicate_def scene_case_dirs_def iterdir_def is_dir_def node_at_def
        starts_with_def)
  have p: "parsed fs_duplicate [''a_case01''] = Some (JObj [(''ours_7000'', JObj [(''PSNR'', JFloat 20)])])"
    "parsed fs_duplicate [''a_case1''] = Some (JObj [(''ours_7000'', JObj [(''PSNR'', JFloat 30)])])"
    by (simp_all add: fs_duplicate_def parsed_def exists_path_def load_results_json_def node_at_def)
  have e: "extract_scene_and_case ''a_case01'' = Some (''a'', 1)"
    "extract_scene_and_case ''a_case1'' = Some (''a'', 1)"
    by (simp_all add: int_defs)
  show ?thesis
    using last_write_wins[of "[''a_case01'']" "''a''" 1 fs_duplicate
        "JObj [(''ours_7000'', JObj [(''PSNR'', JFloat 20)])]" "[''a_case1'']"
        "JObj [(''ours_7000'', JObj [(''PSNR'', JFloat 30)])]" "[]" "[]" "[]"]
    by (simp add: d p e collect_all_results_def)
qed

text \<open>
  Claim C6. The collection does not depend on the order in which the operating system
  enumerates the entries: two listings of the same nodes, one a permutation of the other,
  give equal collections. And the collection holds only successfully parsed units: every
  entry is the loaded \<open>results.json\<close> of a scanned directory whose name gives the entry's
  group key and sub-unit id.
\<close>

theorem collection_independent_of_enumeration_order:
  "(distinct (map fst fs) \<longrightarrow> mset fs' = mset fs \<longrightarrow>
      collect_all_results fs' rd = collect_all_results fs rd)
   \<and> ((g, cases) \<in> set (collect_all_results fs rd) \<longrightarrow> (i, r) \<in> set cases \<longrightarrow>
        (\<exists>d\<in>set (scene_case_dirs fs rd).
           extract_scene_and_case (last d) = Some (g, i) \<and> parsed fs d = Some r))"
proof (intro conjI impI)
  assume "distinct (map fst fs)" "mset fs' = mset fs"
  then show "collect_all_results fs' rd = collect_all_results fs rd"
    by (rule collect_all_results_permutation)
next
  assume a: "(g, cases) \<in> set (collect_all_results fs rd)" "(i, r) \<in> set cases"
  from entries_collect_foldl[OF a(1)[unfolded collect_all_results_def collect_loop_def] a(2)]
  show "\<exists>d\<in>set (scene_case_dirs fs rd).
           extract_scene_and_case (last d) = Some (g, i) \<and> parsed fs d = Some r"
    by simp
qed

theorem collection_independent_of_enumeration_order_witness:
  "distinct (map fst fs_duplicate) \<and> mset (rev fs_duplicate) = mset fs_duplicate
   \<and> collect_all_results (rev fs_duplicate) [] = collect_all_results fs_duplicate []
   \<and> collect_all_results fs_duplicate [] =
       [(''a'', [(1, JObj [(''ours_7000'', JObj [(''PSNR'', JFloat 30)])])])]
   \<and> (\<exists>d\<in>set (scene_case_dirs fs_duplicate []).
         extract_scene_and_case (last d) = Some (''a'', 1)
         \<and> parsed fs_duplicate d = Some (JObj [(''ours_7000'', JObj [(''PSNR'', JFloat 30)])]))"
proof -
  have c: "collect_all_results fs_duplicate [] =
       [(''a'', [(1, JObj [(''ours_7000'', JObj [(''PSNR'', JFloat 30)])])])]"
    by (simp add: fs_duplicate_def fs_defs int_defs)
  have d: "distinct (map fst fs_duplicate)"
    by (simp add: fs_duplicate_def)
  show ?thesis
    using collection_independent_of_enumeration_order[of fs_duplicate "rev fs_duplicate" "[]"
        "''a''" "[(1, JObj [(''ours_7000'', JObj [(''PSNR'', JFloat 30)])])]" 1
        "JObj [(''ours_7000'', JObj [(''PSNR'', JFloat 30)])]"]
    by (simp add: c d)
qed

text \<open>
  Claim C10. When \<open>--output_dir\<close> is omitted and the results directory does not exist,
  \<open>main\<close> creates it before it checks \<open>is_dir\<close>: if the creation succeeds, the run ends
  at "No results found" (exit code 1) and leaves the new directory behind; if it fails
  (a file stands in the way), the exception ends the run. The branch "Results directory
  not found" is taken only when an output directory is given, and it is taken for
  instance when \<open>results\<close> is missing and the output directory is \<open>out\<close>.
\<close>

theorem results_dir_created_before_check:
  "(wf_fs fs \<longrightarrow> output_dir a = None \<longrightarrow> node_at fs (results_dir a) = None \<longrightarrow>
      (case mkdir_parents fs (results_dir a) of
         Inl e \<Rightarrow> main fs a = (Uncaught e, fs)
       | Inr fs1 \<Rightarrow> main fs a = (NoResultsFound, fs1) \<and> is_dir fs1 (results_dir a)))
   \<and> (fst (main fs a) = ResultsDirNotFound \<longrightarrow> output_dir a \<noteq> None)
   \<and> main [] \<lparr>results_dir = [''results''], output_dir = Some [''out''], formats = [FJson, FCsv]\<rparr>
       = (ResultsDirNotFound, [([''out''], Dir)])"
proof (intro conjI impI)
  assume "wf_fs fs" "output_dir a = None" "node_at fs (results_dir a) = None"
  then show "case mkdir_parents fs (results_dir a) of
         Inl e \<Rightarrow> main fs a = (Uncaught e, fs)
       | Inr fs1 \<Rightarrow> main fs a = (NoResultsFound, fs1) \<and> is_dir fs1 (results_dir a)"
    by (rule main_created_results_dir)
next
  assume "fst (main fs a) = ResultsDirNotFound"
  then show "output_dir a \<noteq> None" by (rule main_not_found_needs_output_dir)
next
  show "main [] \<lparr>results_dir = [''results''], output_dir = Some [''out''], formats = [FJson, FCsv]\<rparr>
       = (ResultsDirNotFound, [([''out''], Dir)])"
    by (simp add: main_def mkdir_parents.simps os_mkdir_def node_at_def is_dir_def)
qed

theorem results_dir_created_before_check_witness:
  "wf_fs [] \<and> node_at [] [''results''] = None
   \<and> mkdir_parents [] [''results''] = Inr [([''results''], Dir)]
   \<and> main [] \<lparr>results_dir = [''results''], output_dir = None, formats = [FJson, FCsv]\<rparr>
       = (NoResultsFound, [([''results''], Dir)])
   \<and> is_dir [([''results''], Dir)] [''results'']
   \<and> fst (main [] \<lparr>results_dir = [''results''], output_dir = Some [''out''],
        formats = [FJson, FCsv]\<rparr>) = ResultsDirNotFound"
proof -
  have m: "mkdir_parents [] [''results''] = Inr [([''results''], Dir)]"
    by (simp add: mkdir_parents.simps os_mkdir_def node_at_def)
  show ?thesis
    using results_dir_created_before_check[of "[]"
        "\<lparr>results_dir = [''results''], output_dir = None, formats = [FJson, FCsv]\<rparr>"]
    by (simp add: m wf_fs_def node_at_def)
qed

text \<open>
  Claim C5, as stated, fails: with an accepted command line, an existing results directory
  and one collected sub-unit, whose \<open>results.json\<close> maps the key \<open>note\<close> to a string,
  \<open>metrics.items()\<close> raises \<open>AttributeError\<close> in \<open>compute_scene_statistics\<close>; nothing
  catches it, and the process ends with exit status 1.
\<close>

theorem uncaught_exception_exit_code:
  "is_dir fs_extra_key (results_dir default_args)
   \<and> collect_all_results fs_extra_key (results_dir default_args) =
       [(''sceneA'', [(0, JObj [(''ours_7000'', JObj [(''PSNR'', JFloat 20)]),
                               (''note'', JStr ''partial'')])])]
   \<and> main fs_extra_key default_args = (Uncaught AttributeError, fs_extra_key)
   \<and> exit_code (fst (main fs_extra_key default_args)) = 1
   \<and> run fs_extra_key (Namespace default_args) = (MainEnded (Uncaught AttributeError), fs_extra_key)
   \<and> exit_status (fst (run fs_extra_key (Namespace default_args))) = 1"
proof -
  have c: "collect_all_results fs_extra_key [] =
       [(''sceneA'', [(0, JObj [(''ours_7000'', JObj [(''PSNR'', JFloat 20)]),
                               (''note'', JStr ''partial'')])])]"
    by (simp add: fs_extra_key_def fs_defs int_defs)
  have d: "is_dir fs_extra_key []" by (simp add: is_dir_def node_at_def)
  have p: "per_scene [] [(''sceneA'', [(0, JObj [(''ours_7000'', JObj [(''PSNR'', JFloat 20)]),
                               (''note'', JStr ''partial'')])])] = Inl AttributeError"
    by (simp add: compute_scene_statistics_def)
  have m: "main fs_extra_key default_args = (Uncaught AttributeError, fs_extra_key)"
    by (simp add: main_def default_args_def mkdir_parents_root d c p del: per_scene.simps)
  show ?thesis using c d m by (simp add: default_args_def)
qed

text \<open>
  Claim C5, amended. In every run that no exception ends: the exit status is 2 exactly
  when \<open>argparse\<close> rejects the command line, and then, as when the help is asked for
  (exit status 0), the process ends in \<open>parse_args\<close> with the file system untouched. When
  the command line is accepted, the output directory is created first (the file system
  gains directories only), and then: the exit status is 1 exactly when the results
  directory is no directory or the collection is empty, and 0 exactly when the results
  directory exists and the collection is not empty; in the zero-results case the run ends
  at "No results found" with the file system as it was after the creation of the output
  directory: no output file is written.
\<close>

theorem exit_code_of_main:
  "(\<forall>e. fst (run fs c) \<noteq> MainEnded (Uncaught e)) \<longrightarrow>
     (exit_status (fst (run fs c)) = 2 \<longleftrightarrow> c = UsageError)
     \<and> (case c of
          UsageError \<Rightarrow> run fs c = (ParserExit 2, fs)
        | HelpRequested \<Rightarrow> run fs c = (ParserExit 0, fs)
        | Namespace a \<Rightarrow>
            (\<exists>fs1 new. mkdir_parents fs (output_path a) = Inr fs1
               \<and> fs1 = fs @ map (\<lambda>q. (q, Dir)) new
               \<and> (exit_status (fst (run fs c)) = 1 \<longleftrightarrow>
                     \<not> is_dir fs1 (results_dir a) \<or> collect_all_results fs1 (results_dir a) = [])
               \<and> (exit_status (fst (run fs c)) = 0 \<longleftrightarrow>
                     is_dir fs1 (results_dir a) \<and> collect_all_results fs1 (results_dir a) \<noteq> [])
               \<and> (is_dir fs1 (results_dir a) \<longrightarrow> collect_all_results fs1 (results_dir a) = [] \<longrightarrow>
                     run fs c = (MainEnded NoResultsFound, fs1))))"
proof
  assume h: "\<forall>e. fst (run fs c) \<noteq> MainEnded (Uncaught e)"
  show "(exit_status (fst (run fs c)) = 2 \<longleftrightarrow> c = UsageError)
     \<and> (case c of
          UsageError \<Rightarrow> run fs c = (ParserExit 2, fs)
        | HelpRequested \<Rightarrow> run fs c = (ParserExit 0, fs)
        | Namespace a \<Rightarrow>
            (\<exists>fs1 new. mkdir_parents fs (output_path a) = Inr fs1
               \<and> fs1 = fs @ map (\<lambda>q. (q, Dir)) new
               \<and> (exit_status (fst (run fs c)) = 1 \<longleftrightarrow>
                     \<not> is_dir fs1 (results_dir a) \<or> collect_all_results fs1 (results_dir a) = [])
               \<and> (exit_status (fst (run fs c)) = 0 \<longleftrightarrow>
                     is_dir fs1 (results_dir a) \<and> collect_all_results fs1 (results_dir a) \<noteq> [])
               \<and> (is_dir fs1 (results_dir a) \<longrightarrow> collect_all_results fs1 (results_dir a) = [] \<longrightarrow>
                     run fs c = (MainEnded NoResultsFound, fs1))))"
  proof (cases c)
    case UsageError
    then show ?thesis by simp
  next
    case HelpRequested
    then show ?thesis by simp
  next
    case (Namespace a)
    have a: "\<forall>e. fst (main fs a) \<noteq> Uncaught e"
    proof
      fix e
      have "fst (run fs (Namespace a)) \<noteq> MainEnded (Uncaught e)"
        using h unfolding Namespace by (rule spec)
      then show "fst (main fs a) \<noteq> Uncaught e" by simp
    qed
    have two: "exit_code (fst (main fs a)) \<noteq> 2"
      using exit_code_le_1[of "fst (main fs a)"] by simp
    have s: "exit_status (fst (run fs (Namespace a))) = exit_code (fst (main fs a))"
      by simp
    have t: "run fs (Namespace a) = (MainEnded NoResultsFound, fs1) \<longleftrightarrow>
             main fs a = (NoResultsFound, fs1)" for fs1
      by (cases "main fs a") simp
    have f: "exit_status (fst (run fs c)) = 2 \<longleftrightarrow> c = UsageError"
      unfolding Namespace s using two by simp
    show ?thesis
      by (rule conjI[OF f], unfold Namespace parse_args.case s t)
        (rule exit_code_after_parsing[OF a])
  qed
qed

theorem exit_code_of_main_witness:
  "(\<forall>e. fst (run fs_scenario_c (Namespace default_args)) \<noteq> MainEnded (Uncaught e))
   \<and> mkdir_parents fs_scenario_c (output_path default_args) = Inr fs_scenario_c
   \<and> is_dir fs_scenario_c (results_dir default_args)
   \<and> collect_all_results fs_scenario_c (results_dir default_args) \<noteq> []
   \<and> exit_status (fst (run fs_scenario_c (Namespace default_args))) = 0
   \<and> (\<forall>e. fst (run [] (Namespace default_args)) \<noteq> MainEnded (Uncaught e))
   \<and> collect_all_results [] (results_dir default_args) = []
   \<and> run [] (Namespace default_args) = (MainEnded NoResultsFound, [])
   \<and> exit_status (fst (run [] (Namespace default_args))) = 1
   \<and> (\<forall>e. fst (run fs_scenario_c UsageError) \<noteq> MainEnded (Uncaught e))
   \<and> run fs_scenario_c UsageError = (ParserExit 2, fs_scenario_c)
   \<and> exit_status (fst (run fs_scenario_c UsageError)) = 2
   \<and> (\<forall>e. fst (run fs_scenario_c HelpRequested) \<noteq> MainEnded (Uncaught e))
   \<and> run fs_scenario_c HelpRequested = (ParserExit 0, fs_scenario_c)
   \<and> exit_status (fst (run fs_scenario_c HelpRequested)) = 0"
proof -
  have o: "output_path default_args = []" "results_dir default_args = []"
    by (simp_all add: output_path_def default_args_def)
  have z: "collect_all_results [] [] = []"
    by (simp add: fs_defs)
  have m: "main [] default_args = (NoResultsFound, [])"
    by (simp add: main_def default_args_def mkdir_parents_root z is_dir_def node_at_def)
  have c: "fst (main fs_scenario_c default_args) = Completed"
    by (rule scenario_c_completes)
  have h1: "\<forall>e. fst (run fs_scenario_c (Namespace default_args)) \<noteq> MainEnded (Uncaught e)"
    by (simp add: c)
  have h2: "\<forall>e. fst (run [] (Namespace default_args)) \<noteq> MainEnded (Uncaught e)"
    by (simp add: m)
  have r1: "is_dir fs_scenario_c [] \<and> collect_all_results fs_scenario_c [] \<noteq> []"
    using exit_code_of_main[of fs_scenario_c "Namespace default_args"] h1
    by (simp add: c o mkdir_parents_root)
  have r2: "run fs_scenario_c UsageError = (ParserExit 2, fs_scenario_c)"
    using exit_code_of_main[of fs_scenario_c UsageError] by simp
  have r3: "run fs_scenario_c HelpRequested = (ParserExit 0, fs_scenario_c)"
    using exit_code_of_main[of fs_scenario_c HelpRequested] by simp
  show ?thesis
    using r1 by (simp add: c o mkdir_parents_root m z r2 r3)
qed

text \<open>
  Claim C9. A complete run is a run of \<open>main\<close>, on an accepted command line, that reaches
  its end. The order in which the operating system enumerates the directory entries does
  not matter: on two listings of the same directory tree \<open>main\<close> ends the same way and
  leaves the same node at every path, so the same JSON document. A second run on what a
  complete run has left (the input with the output files of the first run added)
  completes again and changes nothing: it writes the same JSON document and the same
  table over the ones that are there, also when the entries are enumerated in another
  order. The JSON document of a complete run is the summary of the statistics of the
  collection, at \<open>aggregate_results.json\<close> in the output directory.
\<close>

theorem pipeline_is_deterministic:
  "(distinct (map fst fs) \<longrightarrow> mset fs' = mset fs \<longrightarrow>
      fst (main fs' a) = fst (main fs a)
      \<and> node_at (snd (main fs' a)) = node_at (snd (main fs a)))
   \<and> (fst (main fs a) = Completed \<longrightarrow>
        main (snd (main fs a)) a = (Completed, snd (main fs a)))
   \<and> (distinct (map fst fs) \<longrightarrow> fst (main fs a) = Completed \<longrightarrow>
        mset fs2 = mset (snd (main fs a)) \<longrightarrow>
        fst (main fs2 a) = Completed
        \<and> node_at (snd (main fs2 a)) = node_at (snd (main fs a)))
   \<and> (fst (main fs a) = Completed \<longrightarrow> FJson \<in> set (formats a) \<longrightarrow>
        (\<exists>fs1 ss. mkdir_parents fs (output_path a) = Inr fs1
           \<and> per_scene [] (collect_all_results fs1 (results_dir a)) = Inr ss
           \<and> node_at (snd (main fs a)) (output_path a @ [''aggregate_results.json'']) =
               Some (File (Doc (summary ss (compute_overall_statistics ss)
                 (metadata (results_dir a) (collect_all_results fs1 (results_dir a))))))))"
proof (intro conjI impI)
  assume "distinct (map fst fs)" "mset fs' = mset fs"
  from main_any_order[OF this, of a]
  show "fst (main fs' a) = fst (main fs a)"
    "node_at (snd (main fs' a)) = node_at (snd (main fs a))" by simp_all
next
  assume "fst (main fs a) = Completed"
  then show "main (snd (main fs a)) a = (Completed, snd (main fs a))" by (rule main_again)
next
  assume "distinct (map fst fs)" "fst (main fs a) = Completed" "mset fs2 = mset (snd (main fs a))"
  from main_again_any_order[OF this]
  show "fst (main fs2 a) = Completed"
    "node_at (snd (main fs2 a)) = node_at (snd (main fs a))" by simp_all
next
  assume "fst (main fs a) = Completed" "FJson \<in> set (formats a)"
  then show "\<exists>fs1 ss. mkdir_parents fs (output_path a) = Inr fs1
           \<and> per_scene [] (collect_all_results fs1 (results_dir a)) = Inr ss
           \<and> node_at (snd (main fs a)) (output_path a @ [''aggregate_results.json'']) =
               Some (File (Doc (summary ss (compute_overall_statistics ss)
                 (metadata (results_dir a) (collect_all_results fs1 (results_dir a))))))"
    by (rule main_json_output)
qed

theorem pipeline_is_deterministic_witness:
  "distinct (map fst fs_scenario_c)
   \<and> mset (rev fs_scenario_c) = mset fs_scenario_c
   \<and> fst (main fs_scenario_c default_args) = Completed
   \<and> FJson \<in> set (formats default_args)
   \<and> node_at (snd (main fs_scenario_c default_args)) [''aggregate_results.json''] =
       Some (File (Doc (summary
         [(''sceneA'', [(''ours_7000'', [(''PSNR'',
            \<lparr>mean = 20, std = 0, min_stat = 20, max_stat = 20, count_stat = 1,
             values_stat = Some [JFloat 20]\<rparr>)])])]
         [(''ours_7000'', [(''PSNR'',
            \<lparr>mean = 20, std = 0, min_stat = 20, max_stat = 20, count_stat = 1,
             values_stat = None\<rparr>)])]
         (metadata [] [(''sceneA'', [(0, JObj [(''ours_7000'', JObj [(''PSNR'', JFloat 20)])])])]))))
   \<and> fst (main (rev fs_scenario_c) default_args) = Completed
   \<and> node_at (snd (main (rev fs_scenario_c) default_args)) =
       node_at (snd (main fs_scenario_c default_args))
   \<and> main (snd (main fs_scenario_c default_args)) default_args =
       (Completed, snd (main fs_scenario_c default_args))
   \<and> mset (rev (snd (main fs_scenario_c default_args))) = mset (snd (main fs_scenario_c default_args))
   \<and> fst (main (rev (snd (main fs_scenario_c default_args))) default_args) = Completed
   \<and> node_at (snd (main (rev (snd (main fs_scenario_c default_args))) default_args)) =
       node_at (snd (main fs_scenario_c default_args))"
proof -
  have d: "distinct (map fst fs_scenario_c)" by (simp add: fs_scenario_c_def)
  have c: "fst (main fs_scenario_c default_args) = Completed" by (rule scenario_c_completes)
  have f: "FJson \<in> set (formats default_args)" by (simp add: default_args_def)
  have j: "node_at (snd (main fs_scenario_c default_args)) [''aggregate_results.json''] =
       Some (File (Doc (summary
         [(''sceneA'', [(''ours_7000'', [(''PSNR'',
            \<lparr>mean = 20, std = 0, min_stat = 20, max_stat = 20, count_stat = 1,
             values_stat = Some [JFloat 20]\<rparr>)])])]
         [(''ours_7000'', [(''PSNR'',
            \<lparr>mean = 20, std = 0, min_stat = 20, max_stat = 20, count_stat = 1,
             values_stat = None\<rparr>)])]
         (metadata [] [(''sceneA'', [(0, JObj [(''ours_7000'', JObj [(''PSNR'', JFloat 20)])])])]))))"
    unfolding scenario_c_main_result by (simp add: node_at_update)
  show ?thesis
    using pipeline_is_deterministic[of fs_scenario_c "rev fs_scenario_c" default_args
        "rev (snd (main fs_scenario_c default_args))"]
    by (simp add: d c f j)
qed

end
